(* ===== verification/Prelude.thy ===== *)
theory Prelude
  imports Main "HOL-Library.AList" "HOL-Library.Stream" "HOL-Library.Multiset"
begin

text \<open>
  Shared vocabulary of the model of \<^verbatim>\<open>src/script.js\<close>: the types that name the
  program's values (word keys, the random source), the JavaScript list primitives the
  code uses (\<^verbatim>\<open>slice\<close>, \<^verbatim>\<open>indexOf\<close> followed by \<^verbatim>\<open>splice\<close>, the truthiness
  of a string), the reading of \<^verbatim>\<open>Math.floor(Math.random() * n)\<close>, and the generic
  lemmas on lists and association lists that the component theories share.

  A JavaScript \<^verbatim>\<open>Map\<close> keeps its keys in insertion order and \<^verbatim>\<open>Map.set\<close> on a
  present key keeps its position; \<^verbatim>\<open>Array.from(map.keys())\<close> reads that order. The
  model therefore represents every \<^verbatim>\<open>Map\<close> of the program as an association list
  with distinct keys: \<open>AList.update\<close> is \<^verbatim>\<open>set\<close>, \<open>AList.delete\<close> is
  \<^verbatim>\<open>delete\<close>, \<open>map_of\<close> is \<^verbatim>\<open>get\<close> and \<open>map fst\<close> is the key order.
\<close>

named_theorems model_simps "facts about the JavaScript primitives of the model"

type_synonym key = string

text \<open>
  \<^verbatim>\<open>Math.random()\<close> is the program's only source of nondeterminism. The model threads
  an infinite stream of draws through every operation that consumes randomness; a draw
  \<open>d\<close> used at bound \<open>n\<close> stands for \<^verbatim>\<open>Math.floor(Math.random() * n)\<close>, which
  the model reads as \<open>d mod n\<close>: every index below \<open>n\<close> is the value of some draw,
  and no other value is.
\<close>

type_synonym rng = "nat stream"

definition rand_index :: "nat \<Rightarrow> nat \<Rightarrow> nat" where
  "rand_index d n = d mod n"

text \<open>\<^verbatim>\<open>array.slice(start, end)\<close> for \<open>start \<le> end\<close>.\<close>

definition js_slice :: "'a list \<Rightarrow> nat \<Rightarrow> nat \<Rightarrow> 'a list" where
  "js_slice xs start end = take (end - start) (drop start xs)"

text \<open>
  \<^verbatim>\<open>const i = xs.indexOf(k); if (i > -1) xs.splice(i, 1);\<close> removes the first
  occurrence of \<open>k\<close>, and nothing when \<open>k\<close> is absent: that is \<open>remove1\<close>.
  A string is falsy in JavaScript exactly when it is empty.
\<close>

definition js_truthy_str :: "string \<Rightarrow> bool" where
  "js_truthy_str s \<longleftrightarrow> s \<noteq> []"

subsection \<open>Generic lemmas\<close>

lemma rand_index_less [model_simps]: "0 < n \<Longrightarrow> rand_index d n < n"
  by (simp add: rand_index_def)

lemma rand_index_onto: "i < n \<Longrightarrow> rand_index i n = i"
  by (simp add: rand_index_def)

lemma js_slice_set [model_simps]: "set (js_slice xs a b) \<subseteq> set xs"
  by (auto simp: js_slice_def dest: in_set_takeD in_set_dropD)

lemma js_slice_nonempty_iff [model_simps]:
  "js_slice xs a (a + n) \<noteq> [] \<longleftrightarrow> 0 < n \<and> a < length xs"
  by (auto simp: js_slice_def)

lemma js_slice_append_window:
  "js_slice xs a (a + n) @ drop (a + n) xs = drop a xs"
  by (metis js_slice_def add_diff_cancel_left' append_take_drop_id drop_drop add.commute)

lemma map_of_delete_other [model_simps]:
  "k' \<noteq> k \<Longrightarrow> map_of (AList.delete k al) k' = map_of al k'"
  by (simp add: delete_conv)

lemma map_of_delete_same [model_simps]: "map_of (AList.delete k al) k = None"
  by (simp add: delete_conv)

lemma keys_delete [model_simps]:
  "distinct (map fst al) \<Longrightarrow> set (map fst (AList.delete k al)) = set (map fst al) - {k}"
  by (simp add: delete_keys)

lemma distinct_keys_delete [model_simps]:
  "distinct (map fst al) \<Longrightarrow> distinct (map fst (AList.delete k al))"
  by (simp add: distinct_delete)

lemma keys_update [model_simps]:
  "set (map fst (AList.update k v al)) = insert k (set (map fst al))"
  by (auto simp: update_keys)

lemma update_present_keys:
  "k \<in> set (map fst al) \<Longrightarrow> map fst (AList.update k v al) = map fst al"
  by (auto simp: update_keys)

lemma filter_snd_update_present:
  assumes "distinct (map fst al)" and "map_of al k = Some v"
  shows "length (filter (P \<circ> snd) (AList.update k v' al)) + (if P v then 1 else 0)
       = length (filter (P \<circ> snd) al) + (if P v' then 1 else 0)"
  using assms by (induction al) (auto split: if_splits)

lemma filter_snd_delete_present:
  assumes "distinct (map fst al)" and "map_of al k = Some v"
  shows "length (filter (P \<circ> snd) (AList.delete k al)) + (if P v then 1 else 0)
       = length (filter (P \<circ> snd) al)"
  using assms by (induction al) (auto simp: delete_conv' split: if_splits)

lemma filter_snd_delete_absent:
  "map_of al k = None \<Longrightarrow> AList.delete k al = al"
  by (induction al) auto

lemma take_prefix_snoc:
  assumes "take (Suc n) xs = ys @ [k]" and "length ys = n"
  shows "take n xs = ys"
proof -
  have "take n xs = take n (take (Suc n) xs)" by simp
  also have "\<dots> = ys" using assms by simp
  finally show ?thesis .
qed

lemma distinct_set_remove1 [model_simps]:
  "distinct xs \<Longrightarrow> set (remove1 x xs) = set xs - {x}"
  by (rule set_remove1_eq)

lemma remove1_keys_delete:
  "distinct (map fst al) \<Longrightarrow> remove1 k (map fst al) = map fst (AList.delete k al)"
  by (induction al) (auto simp: filter_snd_delete_absent map_of_eq_None_iff)

lemma set_remove1_superset: "set xs - {x} \<subseteq> set (remove1 x xs)"
  by (induction xs) auto

lemma fold_update_keys [model_simps]:
  "set (map fst (fold (\<lambda>k acc. AList.update k v acc) ks al)) = set ks \<union> set (map fst al)"
proof (induction ks arbitrary: al)
  case (Cons a ks)
  then show ?case using keys_update [of a v al] by auto
qed simp

lemma fold_update_distinct [model_simps]:
  "distinct (map fst al) \<Longrightarrow> distinct (map fst (fold (\<lambda>k acc. AList.update k v acc) ks al))"
  by (induction ks arbitrary: al) (auto simp: distinct_update)

lemma fold_update_values:
  "map_of (fold (\<lambda>k acc. AList.update k v acc) ks al) k' = Some p \<Longrightarrow> p = v \<or> map_of al k' = Some p"
proof (induction ks arbitrary: al)
  case (Cons a ks)
  from Cons.IH [of "AList.update a v al"] Cons.prems show ?case
    by (auto simp: update_conv' split: if_splits)
qed simp

text \<open>In a list whose keys are distinct, an update at \<open>i\<close> keeping the key is the only element with that key.\<close>

lemma distinct_key_update_unique:
  assumes "distinct (map f xs)" and "i < length xs" and "f x = f (xs ! i)"
    and "y \<in> set (xs[i := x])" and "f y = f x"
  shows "y = x"
proof -
  obtain j where j: "j < length xs" and y: "xs[i := x] ! j = y"
    using assms(4) by (auto simp: in_set_conv_nth)
  show ?thesis
  proof (cases "j = i")
    case True
    then show ?thesis using y assms(2) by simp
  next
    case False
    then have "f (xs ! j) = f (xs ! i)" using y assms(3,5) by simp
    then have "j = i" using assms(1,2) j by (simp add: nth_eq_iff_index_eq [symmetric])
    with False show ?thesis by simp
  qed
qed

end
