(* ===== verification/Mastery.thy ===== *)
theory Mastery
  imports Prelude
begin

text \<open>
  The MasteryTracker: the progress record that \<^verbatim>\<open>loadData\<close> creates for every word
  (\<^verbatim>\<open>{ level: 0, mastered: false, seenCount: 0 }\<close>), the level update of the correct
  branch of \<^verbatim>\<open>handleSelection\<close>, the seen counter of \<^verbatim>\<open>nextQuestion\<close> and the status
  text of \<^verbatim>\<open>updateLevelIndicator\<close>. The life of one word is the step relation
  \<open>word_step\<close>: it is presented (only while not mastered, since the active pool
  filters mastered words out), answered wrongly any number of times, answered correctly
  once per presentation, and left when another word is presented. The invariant
  \<open>progress_ok\<close> (level at most the threshold, mastered exactly at the threshold)
  holds in every state a word can reach.
\<close>

record progress =
  level :: nat
  mastered :: bool
  seenCount :: nat

definition masteryThreshold :: nat where
  "masteryThreshold = 5"

definition initial_progress :: progress where
  "initial_progress = \<lparr>level = 0, mastered = False, seenCount = 0\<rparr>"

text \<open>\<^verbatim>\<open>handleSelection\<close>, correct branch: the phase rule, then the increment.\<close>

definition shouldAdvance :: "progress \<Rightarrow> bool \<Rightarrow> bool" where
  "shouldAdvance p currentQuestionFailed =
     (if level p < 2 then True else \<not> currentQuestionFailed)"

definition advance_progress :: "progress \<Rightarrow> bool \<Rightarrow> progress" where
  "advance_progress p currentQuestionFailed =
     (if shouldAdvance p currentQuestionFailed then
        (let p' = p\<lparr>level := Suc (level p)\<rparr>
         in if masteryThreshold \<le> level p' then p'\<lparr>mastered := True\<rparr> else p')
      else p)"

text \<open>\<^verbatim>\<open>nextQuestion\<close>: \<^verbatim>\<open>progress.seenCount = (progress.seenCount || 0) + 1\<close>.\<close>

definition mark_seen :: "progress \<Rightarrow> progress" where
  "mark_seen p = p\<lparr>seenCount := Suc (seenCount p)\<rparr>"

text \<open>\<^verbatim>\<open>updateLevelIndicator\<close>: ``Learning'' below level 2, ``Test: n/3'' above.\<close>

datatype level_status = Learning | Test nat

definition level_status :: "nat \<Rightarrow> level_status" where
  "level_status lvl = (if lvl < 2 then Learning else Test (lvl - 1))"

subsection \<open>The life of one word\<close>

text \<open>
  Where the word stands in the question cycle: not on screen, presented with the
  \<^verbatim>\<open>currentQuestionFailed\<close> flag of its presentation, or answered correctly (the
  correct card is then \<^verbatim>\<open>checked\<close> and cannot be answered again).
\<close>

datatype word_phase = Waiting | Asked bool | Answered

type_synonym word_state = "progress \<times> word_phase"

inductive word_step :: "word_state \<Rightarrow> word_state \<Rightarrow> bool" where
  present: "\<not> mastered p \<Longrightarrow> word_step (p, ph) (mark_seen p, Asked False)"
| wrong: "word_step (p, Asked f) (p, Asked True)"
| correct: "word_step (p, Asked f) (advance_progress p f, Answered)"
| leave: "word_step (p, ph) (p, Waiting)"

inductive word_reach :: "word_state \<Rightarrow> bool" where
  start: "word_reach (initial_progress, Waiting)"
| step: "word_reach s \<Longrightarrow> word_step s t \<Longrightarrow> word_reach t"

inductive_cases word_step_fromE: "word_step (p, ph) t"

definition progress_ok :: "progress \<Rightarrow> bool" where
  "progress_ok p \<longleftrightarrow> level p \<le> masteryThreshold \<and> (mastered p \<longleftrightarrow> level p = masteryThreshold)"

definition word_inv :: "word_state \<Rightarrow> bool" where
  "word_inv s \<longleftrightarrow> progress_ok (fst s) \<and> (\<forall>f. snd s = Asked f \<longrightarrow> \<not> mastered (fst s))"

subsection \<open>Lemmas on the update\<close>

lemma level_advance_progress [simp]:
  "level (advance_progress p f) = (if shouldAdvance p f then Suc (level p) else level p)"
  by (simp add: advance_progress_def Let_def)

lemma mastered_advance_progress [simp]:
  "mastered (advance_progress p f) \<longleftrightarrow>
     mastered p \<or> (shouldAdvance p f \<and> masteryThreshold \<le> Suc (level p))"
  by (auto simp: advance_progress_def Let_def)

lemma seenCount_advance_progress [simp]: "seenCount (advance_progress p f) = seenCount p"
  by (simp add: advance_progress_def Let_def)

lemma mark_seen_simps [simp]:
  "level (mark_seen p) = level p" "mastered (mark_seen p) = mastered p"
  "seenCount (mark_seen p) = Suc (seenCount p)"
  by (simp_all add: mark_seen_def)

lemma progress_ok_advance:
  "progress_ok p \<Longrightarrow> \<not> mastered p \<Longrightarrow> progress_ok (advance_progress p f)"
  by (auto simp: progress_ok_def masteryThreshold_def)

lemma progress_ok_mark_seen: "progress_ok p \<Longrightarrow> progress_ok (mark_seen p)"
  by (simp add: progress_ok_def)

lemma progress_ok_initial: "progress_ok initial_progress"
  by (simp add: progress_ok_def initial_progress_def masteryThreshold_def)

lemma word_step_inv: "word_step s t \<Longrightarrow> word_inv s \<Longrightarrow> word_inv t"
  by (induction rule: word_step.induct)
     (auto simp: word_inv_def progress_ok_advance progress_ok_mark_seen)

lemma word_reach_inv: "word_reach s \<Longrightarrow> word_inv s"
proof (induction rule: word_reach.induct)
  case start
  show ?case by (simp add: word_inv_def progress_ok_initial)
next
  case (step s t)
  then show ?case by (blast intro: word_step_inv)
qed

lemma word_step_level_mono: "word_step s t \<Longrightarrow> level (fst s) \<le> level (fst t)"
  by (induction rule: word_step.induct) auto

lemma word_step_mastered_mono: "word_step s t \<Longrightarrow> mastered (fst s) \<Longrightarrow> mastered (fst t)"
  by (induction rule: word_step.induct) auto

subsection \<open>Properties of the MasteryTracker\<close>

text \<open>
  C1. In every state a word can reach, its level is at most the mastery threshold (5)
  and it is mastered exactly when its level equals the threshold.
\<close>

theorem word_reach_level_mastered:
  "word_reach s \<Longrightarrow>
     level (fst s) \<le> masteryThreshold \<and> (mastered (fst s) \<longleftrightarrow> level (fst s) = masteryThreshold)"
  using word_reach_inv by (simp add: word_inv_def progress_ok_def)

theorem word_reach_level_mastered_witness:
  "word_reach (mark_seen initial_progress, Asked False) \<and>
   level (fst (mark_seen initial_progress, Asked False)) \<le> masteryThreshold \<and>
   (mastered (fst (mark_seen initial_progress, Asked False)) \<longleftrightarrow>
      level (fst (mark_seen initial_progress, Asked False)) = masteryThreshold)"
proof -
  have r: "word_reach (mark_seen initial_progress, Asked False)"
    by (rule word_reach.step [OF word_reach.start])
       (rule word_step.present, simp add: initial_progress_def)
  show ?thesis using r word_reach_level_mastered [OF r] by simp
qed

text \<open>
  C2. No step of a word's life lowers its level, and a mastered word stays mastered.
\<close>

theorem word_step_monotone:
  "word_step s t \<Longrightarrow> level (fst s) \<le> level (fst t) \<and> (mastered (fst s) \<longrightarrow> mastered (fst t))"
  using word_step_level_mono word_step_mastered_mono by blast

theorem word_step_monotone_witness:
  "word_step (initial_progress\<lparr>level := 4\<rparr>, Asked False)
     (advance_progress (initial_progress\<lparr>level := 4\<rparr>) False, Answered) \<and>
   level (initial_progress\<lparr>level := 4\<rparr>) \<le> level (advance_progress (initial_progress\<lparr>level := 4\<rparr>) False) \<and>
   mastered (advance_progress (initial_progress\<lparr>level := 4\<rparr>) False)"
proof -
  have st: "word_step (initial_progress\<lparr>level := 4\<rparr>, Asked False)
     (advance_progress (initial_progress\<lparr>level := 4\<rparr>) False, Answered)"
    by (rule word_step.correct)
  show ?thesis using st word_step_monotone [OF st]
    by (simp add: initial_progress_def shouldAdvance_def masteryThreshold_def)
qed

text \<open>
  C3. In the learning phase (level below 2) a correct answer raises the level by one,
  whether or not a wrong answer preceded it in this presentation.
\<close>

theorem learning_phase_advances:
  "level p < 2 \<Longrightarrow> level (advance_progress p failed) = Suc (level p)"
  by (simp add: shouldAdvance_def)

theorem learning_phase_advances_witness:
  "level (initial_progress\<lparr>level := 1\<rparr>) < 2 \<and>
   level (advance_progress (initial_progress\<lparr>level := 1\<rparr>) True) = 2"
  using learning_phase_advances [of "initial_progress\<lparr>level := 1\<rparr>" True]
  by (simp add: initial_progress_def)

text \<open>
  C4. In the testing phase (level 2 or more) a correct answer raises the level by one
  only if no wrong answer preceded it in this presentation; otherwise the level stays.
\<close>

theorem testing_phase_first_try:
  "2 \<le> level p \<Longrightarrow>
     level (advance_progress p failed) = (if failed then level p else Suc (level p))"
  by (simp add: shouldAdvance_def)

theorem testing_phase_first_try_witness:
  "2 \<le> level (initial_progress\<lparr>level := 2\<rparr>) \<and>
   level (advance_progress (initial_progress\<lparr>level := 2\<rparr>) True) = 2 \<and>
   level (advance_progress (initial_progress\<lparr>level := 2\<rparr>) False) = 3"
  using testing_phase_first_try [of "initial_progress\<lparr>level := 2\<rparr>" True]
        testing_phase_first_try [of "initial_progress\<lparr>level := 2\<rparr>" False]
  by (simp add: initial_progress_def)


end
