(* ===== verification/Scheduler.thy ===== *)
theory Scheduler
  imports Mastery
begin

text \<open>
  The ActivePoolScheduler: \<^verbatim>\<open>updateActivePool\<close> of \<^verbatim>\<open>src/script.js\<close>. The
  shuffled sequence is cut into windows of \<^verbatim>\<open>groupSize\<close> keys; the active pool is the
  window at \<^verbatim>\<open>currentGroupIndex\<close> with the mastered keys (and the keys without a
  progress record) filtered out. When the pool is empty but the window is not, the
  scheduler moves to the next window and recomputes, or, at the last window, shows the
  ``Congratulations'' alert and reloads the page. The recursion is a \<^theory_text>\<open>function\<close>
  whose termination measure is the number of keys after the window's start.

  The result records what the JavaScript leaves behind: the new group index and the
  pool (\<open>Active\<close>), or the completion alert with the page reload (\<open>Completed\<close>).
\<close>

datatype pool_result = Active nat "key list" | Completed nat

definition unmastered_in :: "(key \<Rightarrow> progress option) \<Rightarrow> key \<Rightarrow> bool" where
  "unmastered_in pm k = (case pm k of Some p \<Rightarrow> \<not> mastered p | None \<Rightarrow> False)"

definition window :: "key list \<Rightarrow> nat \<Rightarrow> nat \<Rightarrow> key list" where
  "window sequence gi gs = js_slice sequence (gi * gs) (gi * gs + gs)"

function updateActivePool ::
    "key list \<Rightarrow> (key \<Rightarrow> progress option) \<Rightarrow> nat \<Rightarrow> nat \<Rightarrow> pool_result" where
  "updateActivePool sequence pm gi gs =
     (let start = gi * gs; end = start + gs;
          groupKeys = js_slice sequence start end;
          activePool = filter (unmastered_in pm) groupKeys
      in if activePool = [] \<and> groupKeys \<noteq> [] then
           (if end < length sequence then updateActivePool sequence pm (Suc gi) gs
            else Completed gi)
         else Active gi activePool)"
  by pat_completeness auto
termination
proof (relation "measure (\<lambda>(sequence, pm, gi, gs). length sequence - gi * gs)")
  fix sequence :: "key list" and pm and gi gs start end' groupKeys activePool
  assume "start = gi * gs" "end' = start + gs" "groupKeys = js_slice sequence start end'"
    and "activePool = filter (unmastered_in pm) groupKeys"
    and "activePool = [] \<and> groupKeys \<noteq> []" and "end' < length sequence"
  then show "((sequence, pm, Suc gi, gs), sequence, pm, gi, gs)
               \<in> measure (\<lambda>(sequence, pm, gi, gs). length sequence - gi * gs)"
    by (auto simp: js_slice_def)
qed simp

definition window_done :: "key list \<Rightarrow> (key \<Rightarrow> progress option) \<Rightarrow> nat \<Rightarrow> nat \<Rightarrow> bool" where
  "window_done sequence pm j gs \<longleftrightarrow>
     window sequence j gs \<noteq> [] \<and> filter (unmastered_in pm) (window sequence j gs) = []"

declare updateActivePool.simps [simp del]

subsection \<open>Lemmas\<close>

lemma window_nonempty_iff [simp]:
  "window sequence gi gs \<noteq> [] \<longleftrightarrow> 0 < gs \<and> gi * gs < length sequence"
  by (simp add: window_def js_slice_nonempty_iff)

lemma updateActivePool_unfold:
  "updateActivePool sequence pm gi gs =
     (if filter (unmastered_in pm) (window sequence gi gs) = [] \<and> window sequence gi gs \<noteq> [] then
        (if gi * gs + gs < length sequence then updateActivePool sequence pm (Suc gi) gs
         else Completed gi)
      else Active gi (filter (unmastered_in pm) (window sequence gi gs)))"
  by (subst updateActivePool.simps) (simp add: window_def Let_def)

text \<open>
  The recursion in one statement: every result comes from a start index at or after
  \<open>gi\<close>, and every window it passed was non-empty with all its keys mastered.
\<close>

lemma updateActivePool_cases:
  "\<exists>gi'. gi \<le> gi' \<and> (\<forall>j. gi \<le> j \<and> j < gi' \<longrightarrow> window_done sequence pm j gs) \<and>
     (updateActivePool sequence pm gi gs = Active gi' (filter (unmastered_in pm) (window sequence gi' gs)) \<and>
        \<not> window_done sequence pm gi' gs
      \<or> updateActivePool sequence pm gi gs = Completed gi' \<and> window_done sequence pm gi' gs \<and>
        length sequence \<le> gi' * gs + gs)"
proof (induction sequence pm gi gs rule: updateActivePool.induct)
  case (1 sequence pm gi gs)
  show ?case
  proof (cases "window_done sequence pm gi gs \<and> gi * gs + gs < length sequence")
    case True
    have "\<exists>gi'. Suc gi \<le> gi' \<and> (\<forall>j. Suc gi \<le> j \<and> j < gi' \<longrightarrow> window_done sequence pm j gs) \<and>
     (updateActivePool sequence pm (Suc gi) gs = Active gi' (filter (unmastered_in pm) (window sequence gi' gs)) \<and>
        \<not> window_done sequence pm gi' gs
      \<or> updateActivePool sequence pm (Suc gi) gs = Completed gi' \<and> window_done sequence pm gi' gs \<and>
        length sequence \<le> gi' * gs + gs)"
      by (rule "1.IH" [OF refl refl refl refl]) (use True in \<open>auto simp: window_done_def window_def\<close>)
    then obtain gi' where le: "Suc gi \<le> gi'"
      and passed: "\<forall>j. Suc gi \<le> j \<and> j < gi' \<longrightarrow> window_done sequence pm j gs"
      and res: "updateActivePool sequence pm (Suc gi) gs = Active gi' (filter (unmastered_in pm) (window sequence gi' gs)) \<and>
        \<not> window_done sequence pm gi' gs
      \<or> updateActivePool sequence pm (Suc gi) gs = Completed gi' \<and> window_done sequence pm gi' gs \<and>
        length sequence \<le> gi' * gs + gs"
      by blast
    have eq: "updateActivePool sequence pm gi gs = updateActivePool sequence pm (Suc gi) gs"
      using True by (subst updateActivePool_unfold) (simp add: window_done_def)
    have "\<forall>j. gi \<le> j \<and> j < gi' \<longrightarrow> window_done sequence pm j gs"
      using passed True by (metis Suc_leI le_neq_implies_less)
    with le res eq show ?thesis
      by (intro exI [of _ gi']) auto
  next
    case False
    then show ?thesis
      by (intro exI [of _ gi])
         (auto simp: updateActivePool_unfold [of sequence pm gi gs] window_done_def)
  qed
qed

lemma unmastered_in_Some: "unmastered_in pm k \<Longrightarrow> \<exists>p. pm k = Some p \<and> \<not> mastered p"
  by (auto simp: unmastered_in_def split: option.splits)


lemma updateActivePool_nonempty_window:
  "window sequence gi gs \<noteq> [] \<Longrightarrow> updateActivePool sequence pm gi gs \<noteq> Active gi' []"
proof (induction sequence pm gi gs rule: updateActivePool.induct)
  case (1 sequence pm gi gs)
  show ?case
  proof (cases "filter (unmastered_in pm) (window sequence gi gs) = [] \<and> gi * gs + gs < length sequence")
    case True
    then have w: "window sequence (Suc gi) gs \<noteq> []"
      using "1.prems" by simp
    have "updateActivePool sequence pm (Suc gi) gs \<noteq> Active gi' []"
      by (rule "1.IH" [OF refl refl refl refl]) (use True "1.prems" w in \<open>simp_all add: window_def\<close>)
    with True "1.prems" show ?thesis by (simp add: updateActivePool_unfold [of sequence pm gi gs])
  next
    case False
    with "1.prems" show ?thesis by (auto simp: updateActivePool_unfold [of sequence pm gi gs])
  qed
qed

subsection \<open>Properties of the scheduler\<close>

text \<open>
  C6. Every key of the active pool lies in the window the scheduler settled on and has
  a progress record that is not mastered: the pool never offers a mastered word.
\<close>

theorem active_pool_unmastered:
  "updateActivePool sequence pm gi gs = Active gi' pool \<Longrightarrow> k \<in> set pool \<Longrightarrow>
     k \<in> set (window sequence gi' gs) \<and> (\<exists>p. pm k = Some p \<and> \<not> mastered p)"
  using updateActivePool_cases [of gi sequence pm gs]
  by (auto dest: unmastered_in_Some)

theorem active_pool_unmastered_witness:
  "updateActivePool [''a'', ''b'', ''c''] (map_of [(''a'', initial_progress\<lparr>level := 5, mastered := True\<rparr>),
      (''b'', initial_progress\<lparr>level := 5, mastered := True\<rparr>), (''c'', initial_progress)]) 0 2
     = Active 1 [''c''] \<and>
   ''c'' \<in> set [''c''] \<and> ''c'' \<in> set (window [''a'', ''b'', ''c''] 1 2) \<and>
   (\<exists>p. map_of [(''a'', initial_progress\<lparr>level := 5, mastered := True\<rparr>),
      (''b'', initial_progress\<lparr>level := 5, mastered := True\<rparr>), (''c'', initial_progress)] ''c'' = Some p
      \<and> \<not> mastered p)"
proof -
  have r: "updateActivePool [''a'', ''b'', ''c''] (map_of [(''a'', initial_progress\<lparr>level := 5, mastered := True\<rparr>),
      (''b'', initial_progress\<lparr>level := 5, mastered := True\<rparr>), (''c'', initial_progress)]) 0 2
     = Active 1 [''c'']"
    by (simp add: updateActivePool.simps window_def js_slice_def unmastered_in_def initial_progress_def)
  show ?thesis using r active_pool_unmastered [OF r, of "''c''"] by simp
qed





text \<open>
  C9. The scheduler returns an empty pool without the completion alert exactly when the
  window at the current group index is empty, that is when the sequence has shrunk to
  at most \<open>gi * gs\<close> keys (or the group size is 0). Then \<^verbatim>\<open>nextQuestion\<close> returns
  without a question and the session neither continues nor completes.
\<close>

theorem empty_pool_iff_empty_window:
  "(\<exists>gi'. updateActivePool sequence pm gi gs = Active gi' []) \<longleftrightarrow>
     (gs = 0 \<or> length sequence \<le> gi * gs)"
proof
  assume ex: "\<exists>gi'. updateActivePool sequence pm gi gs = Active gi' []"
  show "gs = 0 \<or> length sequence \<le> gi * gs"
  proof (rule ccontr)
    assume "\<not> (gs = 0 \<or> length sequence \<le> gi * gs)"
    then have "window sequence gi gs \<noteq> []" by simp
    with ex show False using updateActivePool_nonempty_window by blast
  qed
next
  assume "gs = 0 \<or> length sequence \<le> gi * gs"
  then have "window sequence gi gs = []"
    by (auto simp: window_def js_slice_def)
  then show "\<exists>gi'. updateActivePool sequence pm gi gs = Active gi' []"
    by (simp add: updateActivePool_unfold [of sequence pm gi gs])
qed

theorem empty_pool_iff_empty_window_witness:
  "(\<exists>gi'. updateActivePool [''a'', ''b'', ''c'', ''d'', ''e''] (map_of []) 1 5 = Active gi' []) \<and>
   updateActivePool [''a'', ''b'', ''c'', ''d'', ''e''] (map_of []) 1 5 = Active 1 []"
proof -
  have "\<exists>gi'. updateActivePool [''a'', ''b'', ''c'', ''d'', ''e''] (map_of []) 1 5 = Active gi' []"
    using empty_pool_iff_empty_window [of "[''a'', ''b'', ''c'', ''d'', ''e'']" "map_of []" 1 5] by simp
  moreover have "updateActivePool [''a'', ''b'', ''c'', ''d'', ''e''] (map_of []) 1 5 = Active 1 []"
    by (simp add: updateActivePool.simps js_slice_def)
  ultimately show ?thesis by blast
qed

end
