(* ===== verification/Options.thy ===== *)
theory Options
  imports Prelude
begin

text \<open>
  The option builder of the QuestionSelector: \<^verbatim>\<open>shuffleArray\<close> (Fisher--Yates, one
  draw per position from the last down to 1) and \<^verbatim>\<open>generateOptions\<close>, whose
  \<^verbatim>\<open>while\<close> loop draws a random other key until three distinct options are
  collected or there is no other key. The loop has no termination argument (a draw may
  repeat a key already taken), so it is a \<^theory_text>\<open>partial_function (option)\<close>:
  \<open>None\<close> is the loop that never ends. An option object
  \<^verbatim>\<open>{ key, ...wordMap.get(key) }\<close> is determined by its key, so the model's options
  are the keys.
\<close>

text \<open>\<^verbatim>\<open>[array[i], array[j]] = [array[j], array[i]]\<close>: both reads happen first.\<close>

definition swap_js :: "'a list \<Rightarrow> nat \<Rightarrow> nat \<Rightarrow> 'a list" where
  "swap_js xs i j = xs[i := xs ! j, j := xs ! i]"

text \<open>The loop body of \<^verbatim>\<open>shuffleArray\<close> for \<open>i = Suc i'\<close>, down to \<open>i = 1\<close>.\<close>

fun shuffle_down :: "nat \<Rightarrow> 'a list \<Rightarrow> rng \<Rightarrow> 'a list \<times> rng" where
  "shuffle_down 0 xs rs = (xs, rs)"
| "shuffle_down (Suc i) xs rs =
     (let j = rand_index (shd rs) (Suc (Suc i))
      in shuffle_down i (swap_js xs (Suc i) j) (stl rs))"

definition shuffleArray :: "'a list \<Rightarrow> rng \<Rightarrow> 'a list \<times> rng" where
  "shuffleArray xs rs = shuffle_down (length xs - 1) xs rs"

partial_function (option) gen_loop ::
    "key list \<Rightarrow> key list \<Rightarrow> rng \<Rightarrow> (key list \<times> rng) option" where
  "gen_loop options otherKeys rs =
     (if length options < 3 \<and> otherKeys \<noteq> [] then
        (let randomKey = otherKeys ! rand_index (shd rs) (length otherKeys)
         in if randomKey \<notin> set options
            then gen_loop (options @ [randomKey]) otherKeys (stl rs)
            else gen_loop options otherKeys (stl rs))
      else Some (options, rs))"

declare gen_loop.simps [code]

definition generateOptions :: "key \<Rightarrow> key list \<Rightarrow> rng \<Rightarrow> (key list \<times> rng) option" where
  "generateOptions correctKey allKeys rs =
     (let otherKeys = filter (\<lambda>k. k \<noteq> correctKey) allKeys
      in case gen_loop [correctKey] otherKeys rs of
           None \<Rightarrow> None
         | Some (options, rs') \<Rightarrow> Some (shuffleArray options rs'))"

text \<open>
  A stream of draws is fair for a bound \<open>n\<close> when every index below \<open>n\<close> is drawn
  again after any point: what independent uniform draws do with probability 1.
\<close>

definition fair_draws :: "nat \<Rightarrow> rng \<Rightarrow> bool" where
  "fair_draws n rs \<longleftrightarrow> (\<forall>m. \<forall>i < n. \<exists>k \<ge> m. rand_index (rs !! k) n = i)"

definition gen_post :: "key list \<Rightarrow> key list \<Rightarrow> key list \<Rightarrow> bool" where
  "gen_post options otherKeys r \<longleftrightarrow>
     (distinct options \<longrightarrow>
        distinct r \<and> take (length options) r = options \<and>
        set r \<subseteq> set options \<union> set otherKeys \<and>
        \<not> (length r < 3 \<and> otherKeys \<noteq> []) \<and> length r \<le> max 3 (length options))"

definition gen_stuck :: "key list \<Rightarrow> key list \<Rightarrow> bool" where
  "gen_stuck options otherKeys \<longleftrightarrow>
     length options = 2 \<and> (\<exists>b. otherKeys = [b] \<and> b \<in> set options)"

text \<open>
  The shape of the options during the loop: the correct key first (not one of the other
  keys), then distinct other keys.
\<close>

definition gen_inv :: "key list \<Rightarrow> key list \<Rightarrow> bool" where
  "gen_inv options otherKeys \<longleftrightarrow>
     options \<noteq> [] \<and> hd options \<notin> set otherKeys \<and> set (tl options) \<subseteq> set otherKeys \<and>
     distinct options"

subsection \<open>Shuffle\<close>

lemma mset_swap_js [simp]:
  "i < length xs \<Longrightarrow> j < length xs \<Longrightarrow> mset (swap_js xs i j) = mset xs"
  by (cases "i = j") (auto simp: swap_js_def mset_swap list_update_swap)

lemma length_swap_js [simp]: "length (swap_js xs i j) = length xs"
  by (simp add: swap_js_def)

lemma shuffle_down_mset:
  "i < length xs \<Longrightarrow> mset (fst (shuffle_down i xs rs)) = mset xs"
proof (induction i xs rs rule: shuffle_down.induct)
  case (1 xs rs)
  then show ?case by simp
next
  case (2 i xs rs)
  have "rand_index (shd rs) (Suc (Suc i)) < Suc (Suc i)" by (simp add: rand_index_less)
  with "2.prems" have "mset (swap_js xs (Suc i) (rand_index (shd rs) (Suc (Suc i)))) = mset xs"
    by simp
  with "2.IH" [OF refl] "2.prems" show ?case by (simp add: Let_def)
qed

lemma shuffle_down_rng: "snd (shuffle_down i xs rs) = sdrop i rs"
  by (induction i xs rs rule: shuffle_down.induct) (simp_all add: Let_def)

lemma shuffleArray_mset: "mset (fst (shuffleArray xs rs)) = mset xs"
proof (cases xs)
  case Nil
  then show ?thesis by (simp add: shuffleArray_def)
next
  case (Cons x xs')
  then show ?thesis by (simp add: shuffleArray_def shuffle_down_mset)
qed

subsection \<open>The option loop\<close>

lemma gen_loop_stop:
  assumes "\<not> (length options < 3 \<and> otherKeys \<noteq> [])"
  shows "gen_loop options otherKeys rs = Some (options, rs)"
  by (subst gen_loop.simps) (simp only: assms if_False)

lemma gen_loop_step:
  assumes "length options < 3 \<and> otherKeys \<noteq> []"
  shows "gen_loop options otherKeys rs =
     (if otherKeys ! rand_index (shd rs) (length otherKeys) \<notin> set options
      then gen_loop (options @ [otherKeys ! rand_index (shd rs) (length otherKeys)]) otherKeys (stl rs)
      else gen_loop options otherKeys (stl rs))"
  using assms by (subst gen_loop.simps) (simp add: Let_def)

lemma gen_loop_take:
  assumes "length options < 3" and "otherKeys ! rand_index (shd rs) (length otherKeys) = k"
    and "otherKeys \<noteq> []" and "k \<notin> set options"
  shows "gen_loop options otherKeys rs = gen_loop (options @ [k]) otherKeys (stl rs)"
  using assms by (simp add: gen_loop_step)

lemma gen_loop_skip:
  assumes "length options < 3" and "otherKeys ! rand_index (shd rs) (length otherKeys) = k"
    and "otherKeys \<noteq> []" and "k \<in> set options"
  shows "gen_loop options otherKeys rs = gen_loop options otherKeys (stl rs)"
  using assms by (simp add: gen_loop_step)

text \<open>
  What a returning loop produces: the options it started with, followed by distinct
  other keys, until three options or no other key.
\<close>

lemma gen_loop_result:
  assumes ret: "gen_loop options otherKeys rs = Some res"
  shows "gen_post options otherKeys (fst res)"
proof (rule gen_loop.raw_induct [where P = "\<lambda>os ks rs res. gen_post os ks (fst res)", OF _ ret])
  fix loop options otherKeys rs res
  assume IH: "\<And>os ks rs res. loop os ks rs = Some res \<Longrightarrow> gen_post os ks (fst res)"
    and eq: "(if length options < 3 \<and> otherKeys \<noteq> [] then
        (let randomKey = otherKeys ! rand_index (shd rs) (length otherKeys)
         in if randomKey \<notin> set options
            then loop (options @ [randomKey]) otherKeys (stl rs)
            else loop options otherKeys (stl rs))
      else Some (options, rs)) = Some res"
  show "gen_post options otherKeys (fst res)"
  proof (cases "length options < 3 \<and> otherKeys \<noteq> []")
    case guard: True
    define k where "k = otherKeys ! rand_index (shd rs) (length otherKeys)"
    have k_in: "k \<in> set otherKeys"
      using guard by (simp add: k_def rand_index_less)
    show ?thesis
    proof (cases "k \<in> set options")
      case False
      with eq guard have "loop (options @ [k]) otherKeys (stl rs) = Some res"
        by (simp add: k_def Let_def)
      from IH [OF this] False guard k_in show ?thesis
        by (auto simp: gen_post_def intro: take_prefix_snoc)
    next
      case True
      with eq guard have "loop options otherKeys (stl rs) = Some res"
        by (simp add: k_def Let_def)
      from IH [OF this] show ?thesis by simp
    qed
  next
    case False
    with eq show ?thesis by (auto simp: gen_post_def)
  qed
qed

text \<open>
  The state the loop cannot leave: two options and a single other key that is already
  one of them. Every draw picks that key again.
\<close>

lemma gen_loop_stuck:
  assumes ret: "gen_loop options otherKeys rs = Some res"
  shows "\<not> gen_stuck options otherKeys"
proof (rule gen_loop.raw_induct [where P = "\<lambda>os ks rs res. \<not> gen_stuck os ks", OF _ ret])
  fix loop options otherKeys rs res
  assume IH: "\<And>os ks rs res. loop os ks rs = Some res \<Longrightarrow> \<not> gen_stuck os ks"
    and eq: "(if length options < 3 \<and> otherKeys \<noteq> [] then
        (let randomKey = otherKeys ! rand_index (shd rs) (length otherKeys)
         in if randomKey \<notin> set options
            then loop (options @ [randomKey]) otherKeys (stl rs)
            else loop options otherKeys (stl rs))
      else Some (options, rs)) = Some res"
  show "\<not> gen_stuck options otherKeys"
  proof
    assume stuck: "gen_stuck options otherKeys"
    then obtain b where b: "otherKeys = [b]" "b \<in> set options" and two: "length options = 2"
      by (auto simp: gen_stuck_def)
    with eq have "loop options otherKeys (stl rs) = Some res"
      by (simp add: Let_def rand_index_def)
    from IH [OF this] stuck show False by blast
  qed
qed

lemma fair_draws_stl: "fair_draws n rs \<Longrightarrow> fair_draws n (stl rs)"
  unfolding fair_draws_def
proof (intro allI impI)
  fix m i assume fair: "\<forall>m. \<forall>i<n. \<exists>k\<ge>m. rand_index (rs !! k) n = i" and "i < n"
  then obtain k where k: "Suc m \<le> k" "rand_index (rs !! k) n = i" by blast
  then obtain k' where "k = Suc k'" by (cases k) auto
  with k show "\<exists>k\<ge>m. rand_index (stl rs !! k) n = i"
    by (intro exI [of _ k']) simp
qed

lemma gen_inv_snoc:
  "gen_inv options ks \<Longrightarrow> k \<in> set ks \<Longrightarrow> k \<notin> set options \<Longrightarrow> gen_inv (options @ [k]) ks"
  by (cases options) (auto simp: gen_inv_def)

lemma gen_inv_missing:
  assumes inv: "gen_inv options ks" and "distinct ks" and "length options < 3" and "2 \<le> length ks"
  shows "\<exists>i < length ks. ks ! i \<notin> set options"
proof -
  from inv have "distinct (tl options)" by (simp add: gen_inv_def distinct_tl)
  then have "card (set (tl options)) < card (set ks)"
    using assms by (simp add: distinct_card)
  then have "\<not> set ks \<subseteq> set (tl options)"
    by (meson card_mono finite_set leD)
  then obtain k where "k \<in> set ks" "k \<notin> set (tl options)" by blast
  moreover have "k \<noteq> hd options" using inv \<open>k \<in> set ks\<close> by (auto simp: gen_inv_def)
  ultimately have "k \<in> set ks" "k \<notin> set options"
    using inv by (auto simp: gen_inv_def neq_Nil_conv)
  then show ?thesis by (metis in_set_conv_nth)
qed

text \<open>With fair draws the loop returns whenever the catalog does not have exactly one other key.\<close>

lemma gen_loop_some:
  assumes "fair_draws (length ks) rs" and "distinct ks" and "length ks \<noteq> 1" and "gen_inv options ks"
  shows "\<exists>res. gen_loop options ks rs = Some res"
  using assms
proof (induction "3 - length options" arbitrary: options rs rule: less_induct)
  case less
  show ?case
  proof (cases "length options < 3 \<and> ks \<noteq> []")
    case False
    then show ?thesis by (simp add: gen_loop_stop)
  next
    case guard: True
    have add: "\<exists>res. gen_loop (options @ [k]) ks rs' = Some res"
      if "k \<in> set ks" "k \<notin> set options" "fair_draws (length ks) rs'" for k rs'
    proof -
      have lt: "3 - length (options @ [k]) < 3 - length options" using guard by simp linarith
      have inv: "gen_inv (options @ [k]) ks"
        using gen_inv_snoc [OF less.prems(4) that(1,2)] .
      show ?thesis by (rule less.hyps [OF lt that(3) less.prems(2,3) inv])
    qed
    have "length ks \<noteq> 0" using guard by simp
    with less.prems(3) have "2 \<le> length ks" by linarith
    with gen_inv_missing [OF less.prems(4) less.prems(2)] guard
    obtain i where i: "i < length ks" "ks ! i \<notin> set options" by blast
    with less.prems(1) obtain n where hit: "rand_index (rs !! n) (length ks) = i"
      by (auto simp: fair_draws_def)
    have "\<And>rs. fair_draws (length ks) rs \<Longrightarrow> rand_index (rs !! n) (length ks) = i \<Longrightarrow>
            \<exists>res. gen_loop options ks rs = Some res"
    proof (induction n)
      case 0
      then have "ks ! rand_index (shd rs) (length ks) \<notin> set options" using i by simp
      moreover have "ks ! rand_index (shd rs) (length ks) \<in> set ks"
        using guard by (simp add: rand_index_less)
      ultimately show ?case
        using add "0.prems"(1) fair_draws_stl by (simp add: gen_loop_step [OF guard])
    next
      case (Suc n)
      have fair': "fair_draws (length ks) (stl rs)" using Suc.prems(1) by (rule fair_draws_stl)
      have key: "ks ! rand_index (shd rs) (length ks) \<in> set ks"
        using guard by (simp add: rand_index_less)
      show ?case
      proof (cases "ks ! rand_index (shd rs) (length ks) \<in> set options")
        case True
        have "\<exists>res. gen_loop options ks (stl rs) = Some res"
          using Suc.IH [OF fair'] Suc.prems(2) by simp
        with True show ?thesis by (simp add: gen_loop_step [OF guard])
      next
        case False
        with add key fair' show ?thesis by (simp add: gen_loop_step [OF guard])
      qed
    qed
    with less.prems(1) hit show ?thesis by blast
  qed
qed

lemma others_length:
  assumes "distinct allKeys" and "c \<in> set allKeys"
  shows "length (filter (\<lambda>k. k \<noteq> c) allKeys) = length allKeys - 1"
proof -
  obtain ys zs where split: "allKeys = ys @ c # zs" using assms(2) by (meson split_list)
  with assms(1) have "c \<notin> set ys" "c \<notin> set zs" by auto
  then have "filter (\<lambda>k. k \<noteq> c) ys = ys" "filter (\<lambda>k. k \<noteq> c) zs = zs"
    by (auto simp: filter_id_conv)
  with split show ?thesis by simp
qed

lemma generateOptions_Some:
  assumes "generateOptions c allKeys rs = Some (opts, rs')"
  obtains r rs0 where "gen_loop [c] (filter (\<lambda>k. k \<noteq> c) allKeys) rs = Some (r, rs0)"
    and "(opts, rs') = shuffleArray r rs0"
  using assms by (auto simp: generateOptions_def split: option.splits)

lemma generateOptions_keys:
  assumes "generateOptions c allKeys rs = Some (opts, rs')"
  shows "distinct opts \<and> c \<in> set opts \<and> set opts \<subseteq> insert c (set allKeys)"
proof -
  let ?ks = "filter (\<lambda>k. k \<noteq> c) allKeys"
  obtain r rs0 where loop: "gen_loop [c] ?ks rs = Some (r, rs0)"
    and sh: "(opts, rs') = shuffleArray r rs0"
    using assms by (rule generateOptions_Some)
  have "gen_post [c] ?ks r" using gen_loop_result [OF loop] by simp
  then have dr: "distinct r" and hd_r: "take 1 r = [c]" and sr: "set r \<subseteq> insert c (set ?ks)"
    by (auto simp: gen_post_def)
  have ms: "mset opts = mset r" using shuffleArray_mset [of r rs0] sh by (metis fst_conv)
  have "c \<in> set r" using hd_r by (cases r) auto
  moreover have "distinct opts" using dr ms by (metis mset_eq_imp_distinct_iff)
  moreover have "set opts = set r" using ms by (rule mset_eq_setD)
  ultimately show ?thesis using sr by auto
qed

lemma generateOptions_two_keys_None:
  assumes "distinct allKeys" and "c \<in> set allKeys" and "length allKeys = 2"
  shows "generateOptions c allKeys rs = None"
proof -
  have "length (filter (\<lambda>k. k \<noteq> c) allKeys) = 1"
    using others_length [OF assms(1,2)] assms(3) by simp
  then obtain b where ks: "filter (\<lambda>k. k \<noteq> c) allKeys = [b]"
    by (metis One_nat_def length_0_conv length_Suc_conv)
  have "b \<in> set (filter (\<lambda>k. k \<noteq> c) allKeys)" by (simp add: ks)
  then have "b \<noteq> c" by simp
  have step: "gen_loop [c] [b] rs = gen_loop [c, b] [b] (stl rs)"
    by (subst gen_loop_take [of "[c]" "[b]" rs b]) (use \<open>b \<noteq> c\<close> in \<open>simp_all add: rand_index_def\<close>)
  have "gen_stuck [c, b] [b]" by (simp add: gen_stuck_def)
  then have "gen_loop [c, b] [b] (stl rs) = None"
    using gen_loop_stuck by (cases "gen_loop [c, b] [b] (stl rs)") blast+
  with step ks show ?thesis by (simp add: generateOptions_def)
qed

lemma generateOptions_returns:
  assumes "distinct allKeys" and "c \<in> set allKeys" and "length allKeys \<noteq> 2"
    and "fair_draws (length allKeys - 1) rs"
  shows "generateOptions c allKeys rs \<noteq> None"
proof -
  let ?ks = "filter (\<lambda>k. k \<noteq> c) allKeys"
  have len: "length ?ks = length allKeys - 1" by (rule others_length [OF assms(1,2)])
  have one: "length ?ks \<noteq> 1" using len assms(2,3) by (cases allKeys) auto
  have inv: "gen_inv [c] ?ks" by (simp add: gen_inv_def)
  have dks: "distinct ?ks" using assms(1) by simp
  have fair: "fair_draws (length ?ks) rs" using assms(4) len by simp
  from gen_loop_some [OF fair dks one inv]
  obtain res where "gen_loop [c] ?ks rs = Some res" by blast
  then show ?thesis by (auto simp: generateOptions_def split: prod.splits)
qed

subsection \<open>Properties of the option builder\<close>

text \<open>
  C10. When \<^verbatim>\<open>generateOptions\<close> returns (over a catalog of distinct keys that holds
  the correct key) its options are distinct, contain the correct key exactly once, come
  from the catalog, and number \<open>min 3\<close> of the catalog size.
\<close>

theorem generateOptions_correct:
  assumes "generateOptions c allKeys rs = Some (opts, rs')"
    and "distinct allKeys" and "c \<in> set allKeys"
  shows "distinct opts \<and> count (mset opts) c = 1 \<and> set opts \<subseteq> set allKeys \<and>
         length opts = min 3 (length allKeys)"
proof -
  let ?ks = "filter (\<lambda>k. k \<noteq> c) allKeys"
  obtain r rs0 where loop: "gen_loop [c] ?ks rs = Some (r, rs0)"
    and sh: "(opts, rs') = shuffleArray r rs0"
    using assms(1) by (rule generateOptions_Some)
  have post: "gen_post [c] ?ks r" using gen_loop_result [OF loop] by simp
  then have dr: "distinct r" and hd_r: "take 1 r = [c]" and sr: "set r \<subseteq> insert c (set ?ks)"
    and stop: "\<not> (length r < 3 \<and> ?ks \<noteq> [])" and le3: "length r \<le> 3"
    by (auto simp: gen_post_def)
  have ms: "mset opts = mset r" using sh shuffleArray_mset [of r rs0] by (metis fst_conv)
  have c_r: "c \<in> set r" using hd_r by (metis in_set_takeD list.set_intros(1))
  have sub: "set r \<subseteq> set allKeys" using sr assms(3) by auto
  have lenr: "length r = min 3 (length allKeys)"
  proof (cases "?ks = []")
    case True
    then have "set r \<subseteq> {c}" using sr by simp
    have "length r = card (set r)" using dr by (simp add: distinct_card)
    also have "\<dots> \<le> card {c}" by (rule card_mono) (simp_all add: \<open>set r \<subseteq> {c}\<close>)
    finally have "length r \<le> 1" by simp
    moreover have "length allKeys = 1"
      using True others_length [OF assms(2,3)] assms(3) by (cases allKeys) auto
    ultimately show ?thesis using c_r by (cases r) auto
  next
    case False
    then have "length r = 3" using stop le3 by simp
    moreover have "length r \<le> length allKeys"
      using sub dr assms(2) by (metis card_mono distinct_card finite_set)
    ultimately show ?thesis by simp
  qed
  have "distinct opts" using mset_eq_imp_distinct_iff [OF ms] dr by (rule iffD2)
  moreover have "count (mset opts) c = 1"
  proof -
    from dr [unfolded distinct_count_atmost_1]
    have "count (mset r) c = (if c \<in> set r then 1 else 0)" by blast
    with c_r have "count (mset r) c = 1" by simp
    then show ?thesis by (simp only: ms)
  qed
  moreover have "set opts \<subseteq> set allKeys" using mset_eq_setD [OF ms] sub by (rule ssubst)
  moreover have "length opts = length r" using arg_cong [OF ms, of size] by (simp only: size_mset)
  ultimately show ?thesis using lenr by simp
qed

theorem generateOptions_correct_witness:
  "generateOptions ''a'' [''a'', ''b'', ''c'', ''d''] nats =
     Some (fst (shuffleArray [''a'', ''b'', ''c''] (stl (stl nats))),
           snd (shuffleArray [''a'', ''b'', ''c''] (stl (stl nats)))) \<and>
   distinct (fst (shuffleArray [''a'', ''b'', ''c''] (stl (stl nats)))) \<and>
   count (mset (fst (shuffleArray [''a'', ''b'', ''c''] (stl (stl nats))))) ''a'' = 1 \<and>
   length (fst (shuffleArray [''a'', ''b'', ''c''] (stl (stl nats)))) = 3"
proof -
  have l1: "gen_loop [''a''] [''b'', ''c'', ''d''] nats = gen_loop [''a'', ''b''] [''b'', ''c'', ''d''] (stl nats)"
    by (subst gen_loop_take [of "[''a'']" _ _ "''b''"]) (simp_all add: rand_index_def)
  have l2: "gen_loop [''a'', ''b''] [''b'', ''c'', ''d''] (stl nats) =
      gen_loop [''a'', ''b'', ''c''] [''b'', ''c'', ''d''] (stl (stl nats))"
    by (subst gen_loop_take [of "[''a'', ''b'']" _ _ "''c''"]) (simp_all add: rand_index_def)
  have l3: "gen_loop [''a'', ''b'', ''c''] [''b'', ''c'', ''d''] (stl (stl nats)) =
      Some ([''a'', ''b'', ''c''], stl (stl nats))"
    by (rule gen_loop_stop) simp
  have f: "filter (\<lambda>k. k \<noteq> ''a'') [''a'', ''b'', ''c'', ''d''] = [''b'', ''c'', ''d'']" by simp
  have r: "generateOptions ''a'' [''a'', ''b'', ''c'', ''d''] nats =
     Some (fst (shuffleArray [''a'', ''b'', ''c''] (stl (stl nats))),
           snd (shuffleArray [''a'', ''b'', ''c''] (stl (stl nats))))"
    by (simp only: generateOptions_def Let_def f l1 l2 l3 option.case prod.case prod.collapse)
  have c: "distinct (fst (shuffleArray [''a'', ''b'', ''c''] (stl (stl nats)))) \<and>
     count (mset (fst (shuffleArray [''a'', ''b'', ''c''] (stl (stl nats))))) ''a'' = 1 \<and>
     length (fst (shuffleArray [''a'', ''b'', ''c''] (stl (stl nats)))) = min 3 (length [''a'', ''b'', ''c'', ''d''])"
    using generateOptions_correct [OF r] by simp
  from r c show ?thesis by simp
qed

text \<open>
  C11. With exactly two words in the catalog \<^verbatim>\<open>generateOptions\<close> never returns,
  whatever \<^verbatim>\<open>Math.random\<close> yields: after taking the only other key the loop keeps
  drawing it, since it needs three options and \<^verbatim>\<open>otherKeys\<close> is still non-empty.
\<close>

theorem generateOptions_two_words_hangs:
  assumes "distinct allKeys" and "c \<in> set allKeys" and "length allKeys = 2"
  shows "generateOptions c allKeys rs = None"
  using assms by (rule generateOptions_two_keys_None)

theorem generateOptions_two_words_hangs_witness:
  "generateOptions ''a'' [''a'', ''b''] nats = None"
  using generateOptions_two_words_hangs [of "[''a'', ''b'']" "''a''" nats] by simp

text \<open>
  C12. For any other catalog size the loop returns, for every stream of draws in which
  each index keeps recurring (independent uniform draws do so with probability 1).
\<close>

theorem generateOptions_terminates:
  assumes "distinct allKeys" and "c \<in> set allKeys" and "length allKeys \<noteq> 2"
    and "fair_draws (length allKeys - 1) rs"
  shows "generateOptions c allKeys rs \<noteq> None"
  using assms by (rule generateOptions_returns)

theorem generateOptions_terminates_witness:
  "distinct [''a'', ''b'', ''c'', ''d''] \<and> fair_draws 3 nats \<and>
   generateOptions ''a'' [''a'', ''b'', ''c'', ''d''] nats \<noteq> None"
proof -
  have fair: "fair_draws 3 nats"
    unfolding fair_draws_def
  proof (intro allI impI)
    fix m i :: nat assume "i < 3"
    then show "\<exists>k\<ge>m. rand_index (nats !! k) 3 = i"
      by (intro exI [of _ "3 * m + i"]) (simp add: rand_index_def)
  qed
  have f: "fair_draws (length [''a'', ''b'', ''c'', ''d''] - 1) nats"
    using fair by (simp add: numeral_3_eq_3)
  have "generateOptions ''a'' [''a'', ''b'', ''c'', ''d''] nats \<noteq> None"
    by (rule generateOptions_terminates [OF _ _ _ f]) simp_all
  with fair show ?thesis by simp
qed

text \<open>
  C13. \<^verbatim>\<open>shuffleArray\<close> returns a permutation of its input and consumes exactly
  \<open>length - 1\<close> draws.
\<close>

theorem shuffleArray_permutation:
  "mset (fst (shuffleArray xs rs)) = mset xs \<and> snd (shuffleArray xs rs) = sdrop (length xs - 1) rs"
proof
  show "mset (fst (shuffleArray xs rs)) = mset xs" by (rule shuffleArray_mset)
  show "snd (shuffleArray xs rs) = sdrop (length xs - 1) rs"
    by (simp add: shuffleArray_def shuffle_down_rng)
qed

end
