(* ===== verification/Progress.thy ===== *)
theory Progress
  imports Mastery
begin

text \<open>
  The ProgressAccountant: \<^verbatim>\<open>updateProgressBar\<close>. A removed word counts as mastered
  and stays in the denominator: the effective mastered count is the number of mastered
  progress records plus \<^verbatim>\<open>deletedCount\<close>, the effective total is the sequence length
  plus \<^verbatim>\<open>deletedCount\<close>, and the bar shows
  \<^verbatim>\<open>Math.round((effectiveMastered / total) * 100)\<close>, or 0 for an empty total.

  The model reads the quotient exactly: \<^verbatim>\<open>Math.round(x)\<close> is \<open>\<lfloor>x + 1/2\<rfloor>\<close>, so the
  percentage is \<open>(200 m + t) div (2 t)\<close>. The double-precision product can differ
  from the exact value by one ulp at a tie (\<open>29/200 * 100\<close> is 14.499\<dots> in IEEE
  arithmetic); that rounding of the floating-point quotient is not modelled.
\<close>

definition percentage :: "nat \<Rightarrow> nat \<Rightarrow> nat" where
  "percentage effectiveMastered effectiveTotal =
     (if 0 < effectiveTotal
      then (200 * effectiveMastered + effectiveTotal) div (2 * effectiveTotal) else 0)"

definition masteredCount :: "(key \<times> progress) list \<Rightarrow> nat" where
  "masteredCount progressMap = length (filter (mastered \<circ> snd) progressMap)"

text \<open>What the bar displays: \<^verbatim>\<open>Progress: p% (effectiveMastered/total)\<close>.\<close>

record bar =
  bar_percentage :: nat
  bar_mastered :: nat
  bar_total :: nat

definition updateProgressBar :: "(key \<times> progress) list \<Rightarrow> key list \<Rightarrow> nat \<Rightarrow> bar" where
  "updateProgressBar progressMap sequence deletedCount =
     (let effectiveMastered = masteredCount progressMap + deletedCount;
          effectiveTotal = length sequence + deletedCount
      in \<lparr>bar_percentage = percentage effectiveMastered effectiveTotal,
          bar_mastered = effectiveMastered, bar_total = effectiveTotal\<rparr>)"

subsection \<open>Lemmas\<close>

lemma percentage_le_100: "m \<le> t \<Longrightarrow> percentage m t \<le> 100"
proof (cases "0 < t")
  case True
  assume "m \<le> t"
  then have "200 * m + t < 101 * (2 * t)" using True by simp
  then have "(200 * m + t) div (2 * t) < 101"
    using True by (simp add: div_less_iff_less_mult)
  then show ?thesis using True by (simp add: percentage_def)
qed (simp add: percentage_def)

lemma percentage_full: "0 < t \<Longrightarrow> percentage t t = 100"
proof -
  assume t: "0 < t"
  have "(200 * t + t) div (2 * t) = (100 * (2 * t) + t) div (2 * t)" by simp
  also have "\<dots> = 100 + t div (2 * t)" using t by simp
  also have "t div (2 * t) = 0" using t by simp
  finally show ?thesis using t by (simp add: percentage_def)
qed

text \<open>The percentage only grows with the ratio \<open>m / t\<close>.\<close>

lemma percentage_mono:
  assumes "m * t' \<le> m' * t" and "0 < t'"
  shows "percentage m t \<le> percentage m' t'"
proof (cases "0 < t")
  case t: True
  define q where "q = (200 * m + t) div (2 * t)"
  have "q * (2 * t) \<le> 200 * m + t" by (simp add: q_def div_times_less_eq_dividend)
  then have "q * (2 * t) * t' \<le> (200 * m + t) * t'" by (rule mult_right_mono) simp
  also have "\<dots> = 200 * (m * t') + t * t'" by (simp add: algebra_simps)
  also have "\<dots> \<le> 200 * (m' * t) + t * t'" using assms(1) by simp
  also have "\<dots> = (200 * m' + t') * t" by (simp add: algebra_simps)
  finally have "(q * (2 * t')) * t \<le> (200 * m' + t') * t" by (simp add: algebra_simps)
  then have "q * (2 * t') \<le> 200 * m' + t'" using t by simp
  then have "q \<le> (200 * m' + t') div (2 * t')"
    using assms(2) by (simp add: less_eq_div_iff_mult_less_eq)
  then show ?thesis using t assms(2) by (simp add: percentage_def q_def)
qed (simp add: percentage_def)

lemma updateProgressBar_fields [simp]:
  "bar_percentage (updateProgressBar pm sq d) = percentage (masteredCount pm + d) (length sq + d)"
  "bar_mastered (updateProgressBar pm sq d) = masteredCount pm + d"
  "bar_total (updateProgressBar pm sq d) = length sq + d"
  by (simp_all add: updateProgressBar_def Let_def)

lemma masteredCount_update_unmastered:
  "\<not> mastered v \<Longrightarrow> masteredCount al = 0 \<Longrightarrow> masteredCount (AList.update k v al) = 0"
  by (induction al) (auto simp: masteredCount_def)

lemma masteredCount_fold_initial:
  "masteredCount al = 0 \<Longrightarrow> masteredCount (fold (\<lambda>k acc. AList.update k initial_progress acc) ks al) = 0"
  by (induction ks arbitrary: al)
     (simp_all add: masteredCount_update_unmastered initial_progress_def)

lemma masteredCount_delete_le: "masteredCount (AList.delete k pm) \<le> masteredCount pm"
  by (induction pm) (auto simp: masteredCount_def)

lemma masteredCount_le: "masteredCount pm \<le> length pm"
  by (simp add: masteredCount_def)

subsection \<open>Properties of the progress bar\<close>



text \<open>
  The scenario of the spec: ten words, none mastered, nothing removed shows 0\%;
  removing one unmastered word shows 10\% (one of ten done).
\<close>

theorem progress_ten_words_scenario:
  assumes "length sequence = 10" and "k \<in> set sequence" and "masteredCount pm = 0"
  shows "bar_percentage (updateProgressBar pm sequence 0) = 0 \<and>
         bar_percentage (updateProgressBar (AList.delete k pm) (remove1 k sequence) 1) = 10"
proof -
  have "masteredCount (AList.delete k pm) = 0"
    using masteredCount_delete_le [of k pm] assms(3) by simp
  moreover have "length (remove1 k sequence) = 9"
    using assms(1,2) by (simp add: length_remove1)
  ultimately show ?thesis using assms(3) by (simp add: percentage_def)
qed

theorem progress_ten_words_scenario_witness:
  "bar_percentage (updateProgressBar (map (\<lambda>k. (k, initial_progress)) [''w0'', ''w1'', ''w2'', ''w3'', ''w4'', ''w5'', ''w6'', ''w7'', ''w8'', ''w9''])
                     [''w0'', ''w1'', ''w2'', ''w3'', ''w4'', ''w5'', ''w6'', ''w7'', ''w8'', ''w9''] 0) = 0 \<and>
   bar_percentage (updateProgressBar (AList.delete ''w3'' (map (\<lambda>k. (k, initial_progress)) [''w0'', ''w1'', ''w2'', ''w3'', ''w4'', ''w5'', ''w6'', ''w7'', ''w8'', ''w9'']))
                     (remove1 ''w3'' [''w0'', ''w1'', ''w2'', ''w3'', ''w4'', ''w5'', ''w6'', ''w7'', ''w8'', ''w9'']) 1) = 10"
  by (rule progress_ten_words_scenario) (simp_all add: masteredCount_def initial_progress_def)

end
