(* ===== verification/Audio.thy ===== *)
theory Audio
  imports Prelude
begin

text \<open>
  The AudioResolver: \<^verbatim>\<open>CONFIG.googleTTS\<close> (\<^verbatim>\<open>getVoiceName\<close>,
  \<^verbatim>\<open>getLanguageCode\<close>, \<^verbatim>\<open>synthesize\<close>), \<^verbatim>\<open>playAudio\<close> and \<^verbatim>\<open>getVoiceLang\<close>.
  \<^verbatim>\<open>playAudio\<close> is asynchronous: it awaits \<^verbatim>\<open>synthesize\<close>, and other events
  (a new question that clears \<^verbatim>\<open>currentAudioCache\<close>, a replay) run before the response
  arrives. It is modelled as two events, the call (\<open>Start\<close>, which plays the cache or
  sends a request) and the arrival of the response of one of the requests in flight
  (\<open>Resolve\<close>, in any order), over the audio part of the state. The network and the
  browser's media elements are the environment: their outcomes are the events'
  parameters.
\<close>

definition getVoiceName :: "string \<Rightarrow> string" where
  "getVoiceName langCode =
     (if langCode = ''en'' then ''en-US-Wavenet-F''
      else if langCode = ''zh'' then ''cmn-CN-Wavenet-A''
      else if langCode = ''es'' then ''es-ES-Wavenet-F''
      else if langCode = ''fr'' then ''fr-FR-Wavenet-F''
      else if langCode = ''de'' then ''de-DE-Wavenet-G''
      else if langCode = ''ja'' then ''ja-JP-Wavenet-A''
      else if langCode = ''ko'' then ''ko-KR-Wavenet-A''
      else if langCode = ''it'' then ''it-IT-Wavenet-E''
      else if langCode = ''pt'' then ''pt-PT-Wavenet-E''
      else if langCode = ''ru'' then ''ru-RU-Wavenet-C''
      else ''en-US-Wavenet-F'')"

definition getLanguageCode :: "string \<Rightarrow> string" where
  "getLanguageCode langCode =
     (if langCode = ''de'' then ''de-DE''
      else if langCode = ''ja'' then ''ja-JP''
      else if langCode = ''es'' then ''es-ES''
      else ''en-US'')"

definition getVoiceLang :: "string \<Rightarrow> string" where
  "getVoiceLang langCode =
     (if langCode = ''de'' then ''de-DE''
      else if langCode = ''ja'' then ''ja-JP''
      else if langCode = ''es'' then ''es-ES''
      else ''en-US'')"

text \<open>The request body of \<^verbatim>\<open>synthesize\<close> (the audio configuration is constant).\<close>

record tts_request =
  input_text :: string
  voice_languageCode :: string
  voice_name :: string

definition synthesize_request :: "string \<Rightarrow> string \<Rightarrow> tts_request" where
  "synthesize_request text langCode =
     \<lparr>input_text = text, voice_languageCode = getLanguageCode langCode,
      voice_name = getVoiceName langCode\<rparr>"

text \<open>What the service answers: a body with \<^verbatim>\<open>audioContent\<close>, a body without it (an
  error report, whatever its message), or a rejected fetch or body parse.\<close>

datatype tts_response = AudioContent string | ErrorBody string | NetworkError

fun synthesize_result :: "tts_response \<Rightarrow> string option" where
  "synthesize_result (AudioContent c) = (if c = [] then None else Some c)"
| "synthesize_result (ErrorBody m) = None"
| "synthesize_result NetworkError = None"

definition dataUrl :: "string \<Rightarrow> string" where
  "dataUrl audioContent = ''data:audio/mp3;base64,'' @ audioContent"

text \<open>What \<^verbatim>\<open>playAudio\<close> starts: a clip from a data URL, the local speech voice for a
  text and language, or nothing (no \<^verbatim>\<open>speechSynthesis\<close>).\<close>

datatype playback = Clip string | Speech string string | Silent

record audio_state =
  audioCache :: "string option"
  inFlight :: "string list"
  audioLang :: string
  speechAvailable :: bool
  played :: "playback list"

datatype audio_event = Start string | ClearCache | Resolve nat tts_response

fun audio_step :: "audio_event \<Rightarrow> audio_state \<Rightarrow> audio_state" where
  "audio_step (Start text) a =
     (case audioCache a of
        Some url \<Rightarrow> a\<lparr>played := played a @ [Clip url]\<rparr>
      | None \<Rightarrow> a\<lparr>inFlight := inFlight a @ [text]\<rparr>)"
| "audio_step ClearCache a = a\<lparr>audioCache := None\<rparr>"
| "audio_step (Resolve i response) a =
     (if length (inFlight a) \<le> i then a
      else
        (let text = inFlight a ! i;
             a' = a\<lparr>inFlight := take i (inFlight a) @ drop (Suc i) (inFlight a)\<rparr>
         in case synthesize_result response of
              Some c \<Rightarrow> a'\<lparr>audioCache := Some (dataUrl c), played := played a @ [Clip (dataUrl c)]\<rparr>
            | None \<Rightarrow>
                if speechAvailable a then a'\<lparr>played := played a @ [Speech text (getVoiceLang (audioLang a))]\<rparr>
                else a'\<lparr>played := played a @ [Silent]\<rparr>))"

text \<open>
  How a started playback ends, and how many of the handlers \<^verbatim>\<open>playAudio\<close> registered
  call \<^verbatim>\<open>onEnd\<close>. A clip registers \<^verbatim>\<open>onended\<close>, \<^verbatim>\<open>onerror\<close> and a
  \<^verbatim>\<open>play().catch\<close>: a clip that plays to the end fires \<^verbatim>\<open>onended\<close>; a clip that
  fails to load fires \<^verbatim>\<open>onerror\<close> and rejects \<^verbatim>\<open>play()\<close>; a blocked autoplay only
  rejects \<^verbatim>\<open>play()\<close>. An utterance registers \<^verbatim>\<open>onend\<close> and \<^verbatim>\<open>onerror\<close>, exactly
  one of which fires; without speech synthesis \<^verbatim>\<open>onEnd\<close> is called directly.
\<close>

datatype playback_outcome = PlayedToEnd | LoadError | PlayBlocked

fun onEnd_calls :: "playback \<Rightarrow> playback_outcome \<Rightarrow> nat" where
  "onEnd_calls (Clip url) PlayedToEnd = 1"
| "onEnd_calls (Clip url) LoadError = 2"
| "onEnd_calls (Clip url) PlayBlocked = 1"
| "onEnd_calls (Speech text lang) oc = 1"
| "onEnd_calls Silent oc = 1"

subsection \<open>Properties of the audio resolver\<close>

text \<open>
  The audio cache can hold the previous question's word: if the question changes
  while the first synthesis is in flight (the delete button calls
  \<^verbatim>\<open>nextQuestion\<close>, which clears the cache and asks for the new word) and the first
  response arrives next, it fills the cache with the old word's clip, and replaying the
  new question plays the old word.
\<close>

theorem stale_audio_cache:
  assumes "c1 \<noteq> []"
  shows "let a = fold audio_step [Start t1, ClearCache, Start t2, Resolve 0 (AudioContent c1)]
                   (a0\<lparr>audioCache := None, inFlight := []\<rparr>)
         in audioCache a = Some (dataUrl c1) \<and> inFlight a = [t2] \<and>
            played (audio_step (Start t2) a) = played a0 @ [Clip (dataUrl c1), Clip (dataUrl c1)]"
  using assms by (simp add: Let_def)

theorem stale_audio_cache_witness:
  "''UklGR'' \<noteq> [] \<and>
   (let a = fold audio_step [Start ''Hund'', ClearCache, Start ''Katze'', Resolve 0 (AudioContent ''UklGR'')]
              \<lparr>audioCache = None, inFlight = [], audioLang = ''de'', speechAvailable = True, played = []\<rparr>
    in audioCache a = Some (dataUrl ''UklGR'') \<and> inFlight a = [''Katze''] \<and>
       played (audio_step (Start ''Katze'') a) = [Clip (dataUrl ''UklGR''), Clip (dataUrl ''UklGR'')])"
  using stale_audio_cache [of "''UklGR''" "''Hund''" "''Katze''"
      "\<lparr>audioCache = None, inFlight = [], audioLang = ''de'', speechAvailable = True, played = []\<rparr>"]
  by simp

text \<open>
  C36. Every response ends its request with exactly one playback, the clip, the local
  voice in the current language or nothing, and whichever way that playback ends,
  \<^verbatim>\<open>onEnd\<close> is called at least once (gameplay is never blocked by audio failure),
  though a clip that fails to load calls it twice.
\<close>

theorem resolve_plays_once:
  assumes "i < length (inFlight a)"
  shows "\<exists>p. played (audio_step (Resolve i r) a) = played a @ [p] \<and>
             length (inFlight (audio_step (Resolve i r) a)) = length (inFlight a) - 1 \<and>
             1 \<le> onEnd_calls p oc \<and> onEnd_calls p oc \<le> 2"
proof -
  have "1 \<le> onEnd_calls p oc \<and> onEnd_calls p oc \<le> 2" for p
    by (cases p; cases oc) simp_all
  then show ?thesis
    using assms by (auto simp: Let_def min_def split: option.split)
qed

theorem resolve_plays_once_witness:
  "0 < length [''Hund''] \<and>
   played (audio_step (Resolve 0 NetworkError)
     \<lparr>audioCache = None, inFlight = [''Hund''], audioLang = ''de'', speechAvailable = True, played = []\<rparr>) =
     [Speech ''Hund'' ''de-DE'']"
  using resolve_plays_once [of 0 "\<lparr>audioCache = None, inFlight = [''Hund''], audioLang = ''de'',
      speechAvailable = True, played = []\<rparr>" NetworkError PlayedToEnd]
  by (simp add: getVoiceLang_def)

text \<open>
  Without a competing request the cache works as intended: once the question's
  clip arrived, replaying the question plays that clip again without a new request.
\<close>

theorem replay_uses_cache:
  assumes "c \<noteq> []" and "audioCache a = None" and "inFlight a = []"
  shows "let a1 = audio_step (Resolve 0 (AudioContent c)) (audio_step (Start t) a);
             a2 = audio_step (Start t) a1
         in inFlight a2 = [] \<and> played a2 = played a @ [Clip (dataUrl c), Clip (dataUrl c)]"
  using assms by (simp add: Let_def)

theorem replay_uses_cache_witness:
  "''UklGR'' \<noteq> [] \<and>
   (let a = \<lparr>audioCache = None, inFlight = [], audioLang = ''ja'', speechAvailable = False, played = []\<rparr>;
        a1 = audio_step (Resolve 0 (AudioContent ''UklGR'')) (audio_step (Start ''inu'') a);
        a2 = audio_step (Start ''inu'') a1
    in inFlight a2 = [] \<and> played a2 = [Clip (dataUrl ''UklGR''), Clip (dataUrl ''UklGR'')])"
  using replay_uses_cache [of "''UklGR''"
      "\<lparr>audioCache = None, inFlight = [], audioLang = ''ja'', speechAvailable = False, played = []\<rparr>" "''inu''"]
  by simp

end
