(* ===== verification/Session.thy ===== *)
theory Session
  imports Scheduler Options Progress Audio
begin

text \<open>
  The session: \<^verbatim>\<open>app.state\<close> as a record and the handlers that change it,
  \<^verbatim>\<open>loadData\<close>, \<^verbatim>\<open>startGame\<close>, \<^verbatim>\<open>nextQuestion\<close>, \<^verbatim>\<open>handleSelection\<close> and
  \<^verbatim>\<open>removeCurrentWord\<close>, composed from the scheduler, the audio resolver, the option builder and the
  mastery update. A handler's outcome is a \<open>js_result\<close>: it finishes, or it throws (a
  \<^verbatim>\<open>TypeError\<close> on an undefined record; the browser keeps the state as mutated up to
  the throw and goes on dispatching events), or it never returns (the option loop;
  the page freezes).

  The DOM part the core reads is kept: the option cards of the current question with
  their \<^verbatim>\<open>checked\<close> class and the target key their click listeners captured. The
  reward sound \<^verbatim>\<open>playEffect('posi', cb)\<close> calls \<^verbatim>\<open>nextQuestion\<close> when it ends: the
  model counts these pending callbacks and runs one (\<open>posiCallback\<close>: the cat-sound
  draw, then \<^verbatim>\<open>nextQuestion\<close>) on the events \<open>EffectEnded\<close> and
  \<open>EffectFailed\<close>. The field \<open>audio\<close> is the state of \<open>Audio\<close>, changed by
  \<^verbatim>\<open>nextQuestion\<close>, the replay button (\<open>replayAudio\<close>) and the event
  \<open>AudioResponse\<close>. The treat counter is \<open>treatCount\<close>. The
  page reload after the completion alert is the flag \<open>reloaded\<close>.
\<close>

datatype js_error = TypeError | DataUnavailable

datatype 'a js_result = Done 'a | Thrown js_error 'a | Hangs

record word_data =
  original :: string
  wid :: string
  images :: "string list"

record card =
  card_key :: key
  checked :: bool
  card_image :: "string option"

record session =
  wordMap :: "(key \<times> word_data) list"
  sequence :: "key list"
  progressMap :: "(key \<times> progress) list"
  currentGroupIndex :: nat
  groupSize :: nat
  activePool :: "key list"
  currentQuestionKey :: "key option"
  currentQuestionFailed :: bool
  audio :: audio_state
  allKeys :: "key list"
  deletedCount :: nat
  treatCount :: nat
  cards :: "card list"
  cardsTarget :: key
  pendingNext :: nat
  reloaded :: bool
  rnd :: rng

text \<open>The object literal \<^verbatim>\<open>app.state\<close> (\<^verbatim>\<open>deletedCount\<close> starts undefined, read as 0).\<close>

definition init_session :: "rng \<Rightarrow> session" where
  "init_session rs =
     \<lparr>wordMap = [], sequence = [], progressMap = [], currentGroupIndex = 0, groupSize = 5,
      activePool = [], currentQuestionKey = None, currentQuestionFailed = False,
      audio = \<lparr>audioCache = None, inFlight = [], audioLang = [], speechAvailable = True,
               played = []\<rparr>,
      allKeys = [], deletedCount = 0, treatCount = 0, cards = [], cardsTarget = [],
      pendingNext = 0, reloaded = False, rnd = rs\<rparr>"

fun js_then :: "'a js_result \<Rightarrow> ('a \<Rightarrow> 'a js_result) \<Rightarrow> 'a js_result" where
  "js_then (Done s) f = f s"
| "js_then (Thrown e s) f = Thrown e s"
| "js_then Hangs f = Hangs"

text \<open>\<^verbatim>\<open>updateActivePool\<close> on the state; \<open>Completed\<close> is the alert and the reload.\<close>

definition applyPool :: "session \<Rightarrow> session" where
  "applyPool s =
     (case updateActivePool (sequence s) (map_of (progressMap s)) (currentGroupIndex s) (groupSize s) of
        Active gi pool \<Rightarrow> s\<lparr>currentGroupIndex := gi, activePool := pool\<rparr>
      | Completed gi \<Rightarrow> s\<lparr>currentGroupIndex := gi, activePool := [], reloaded := True\<rparr>)"

text \<open>
  The rendering loop of \<^verbatim>\<open>nextQuestion\<close>: one card per option, with a random image
  of the option's word (\<^verbatim>\<open>opt.images[Math.floor(Math.random() * opt.images.length)]\<close>,
  undefined for an empty image list). An option whose word has no entry has no
  \<^verbatim>\<open>images\<close>, and reading its \<^verbatim>\<open>length\<close> throws.
\<close>

fun render_cards :: "(key \<times> word_data) list \<Rightarrow> key list \<Rightarrow> rng \<Rightarrow> (card list \<times> rng) option" where
  "render_cards wm [] rs = Some ([], rs)"
| "render_cards wm (k # ks) rs =
     (case map_of wm k of
        None \<Rightarrow> None
      | Some d \<Rightarrow>
          (let imgs = images d;
               c = \<lparr>card_key = k, checked = False,
                    card_image = (if imgs = [] then None
                                  else Some (imgs ! rand_index (shd rs) (length imgs)))\<rparr>
           in map_option (\<lambda>(cs, rs'). (c # cs, rs')) (render_cards wm ks (stl rs))))"

definition nextQuestion :: "session \<Rightarrow> session js_result" where
  "nextQuestion s0 =
     (let s = applyPool s0 in
      if activePool s = [] then Done s
      else
        (let targetKey = activePool s ! rand_index (shd (rnd s)) (length (activePool s));
             s1 = s\<lparr>audio := audio_step ClearCache (audio s), currentQuestionKey := Some targetKey,
                    currentQuestionFailed := False, rnd := stl (rnd s)\<rparr>
         in case map_of (progressMap s1) targetKey of
              None \<Rightarrow> Thrown TypeError s1
            | Some p \<Rightarrow>
                (let s2 = s1\<lparr>progressMap := AList.update targetKey (mark_seen p) (progressMap s1)\<rparr>
                 in case map_of (wordMap s2) targetKey of
                      None \<Rightarrow> Thrown TypeError s2
                    | Some d \<Rightarrow>
                        (case generateOptions targetKey (allKeys s2) (rnd s2) of
                           None \<Rightarrow> Hangs
                         | Some (opts, rs) \<Rightarrow>
                             (case render_cards (wordMap s2) opts rs of
                                None \<Rightarrow> Thrown TypeError (s2\<lparr>cards := [], cardsTarget := targetKey\<rparr>)
                              | Some (cs, rs') \<Rightarrow>
                                  Done (s2\<lparr>cards := cs, cardsTarget := targetKey, rnd := rs',
                                           audio := audio_step (Start (original d)) (audio s2)\<rparr>))))))"

text \<open>
  \<^verbatim>\<open>handleSelection(el, correctKey)\<close> for the card at position \<open>i\<close>: a checked card
  is ignored; otherwise it is checked, and a correct answer applies the phase rule to
  the target's progress record and schedules \<^verbatim>\<open>nextQuestion\<close> after the reward sound,
  while a wrong answer sets \<^verbatim>\<open>currentQuestionFailed\<close>. The listener does not test
  the \<^verbatim>\<open>disabled\<close> class (the lock while the word is spoken is left to the style sheet).
\<close>

text \<open>\<^verbatim>\<open>updateTreatCount\<close>: \<^verbatim>\<open>(app.state.treatCount || 0) + 1\<close>.\<close>

definition updateTreatCount :: "session \<Rightarrow> session" where
  "updateTreatCount s = s\<lparr>treatCount := Suc (treatCount s)\<rparr>"

declare updateTreatCount_def [simp]

definition handleSelection :: "nat \<Rightarrow> session \<Rightarrow> session js_result" where
  "handleSelection i s =
     (if length (cards s) \<le> i then Done s
      else
        (let c = cards s ! i; correctKey = cardsTarget s
         in if checked c then Done s
            else
              (let s1 = s\<lparr>cards := (cards s)[i := c\<lparr>checked := True\<rparr>]\<rparr>
               in if card_key c = correctKey then
                    (case map_of (progressMap s) correctKey of
                       None \<Rightarrow> Thrown TypeError s1
                     | Some p \<Rightarrow>
                         Done ((updateTreatCount (s1\<lparr>progressMap := AList.update correctKey
                                     (advance_progress p (currentQuestionFailed s)) (progressMap s)\<rparr>))
                                 \<lparr>pendingNext := Suc (pendingNext s)\<rparr>))
                  else Done (s1\<lparr>currentQuestionFailed := True\<rparr>))))"

definition removeCurrentWord :: "session \<Rightarrow> session js_result" where
  "removeCurrentWord s =
     (case currentQuestionKey s of
        None \<Rightarrow> Done s
      | Some key \<Rightarrow>
          if \<not> js_truthy_str key then Done s
          else nextQuestion (s\<lparr>wordMap := AList.delete key (wordMap s),
                               sequence := remove1 key (sequence s),
                               allKeys := remove1 key (allKeys s),
                               progressMap := AList.delete key (progressMap s),
                               deletedCount := Suc (deletedCount s)\<rparr>))"

text \<open>
  \<^verbatim>\<open>loadData\<close> after \<^verbatim>\<open>parseScaleCSV\<close> produced the word map and the sequence:
  the key list, the check that it is non-empty, a fresh progress record per sequence key,
  and the shuffle. No other field is reset.
\<close>

definition loadData :: "(key \<times> word_data) list \<Rightarrow> key list \<Rightarrow> session \<Rightarrow> session js_result" where
  "loadData wm seq s =
     (let s1 = s\<lparr>wordMap := wm, sequence := seq, progressMap := [], allKeys := map fst wm\<rparr>
      in if allKeys s1 = [] then Thrown DataUnavailable s1
         else
           (let pm = fold (\<lambda>k acc. AList.update k initial_progress acc) seq [];
                sh = shuffleArray seq (rnd s1)
            in Done (s1\<lparr>progressMap := pm, sequence := fst sh, rnd := snd sh\<rparr>)))"

definition startGame :: "session \<Rightarrow> session js_result" where
  "startGame s = nextQuestion (applyPool (s\<lparr>currentGroupIndex := 0\<rparr>))"

definition startLoading :: "(key \<times> word_data) list \<Rightarrow> key list \<Rightarrow> session \<Rightarrow> session js_result" where
  "startLoading wm seq s = js_then (loadData wm seq s) startGame"

text \<open>
  The events the page dispatches to the core: a click on the card at a position, the
  end of a reward sound (\<^verbatim>\<open>onended\<close>: its callback runs once), the failure of a
  reward sound (\<^verbatim>\<open>onerror\<close> and the rejected \<^verbatim>\<open>play()\<close> promise both call the
  callback, so \<^verbatim>\<open>nextQuestion\<close> runs twice), the confirmed deletion, the replay
  button (\<^verbatim>\<open>playAudio\<close> of the current word, if it still has an entry), and the
  arrival of the response to the \<open>i\<close>-th synthesis request in flight. Clicks are
  not restricted to enabled cards: the \<^verbatim>\<open>.disabled\<close> style is not in the sources,
  and every property below holds for any order of clicks and responses.

  The audio part of the state is the \<open>audio_state\<close> of \<open>Audio\<close>:
  \<^verbatim>\<open>app.state.currentAudioCache\<close> is its cache, and every \<^verbatim>\<open>playAudio\<close> call of
  the handlers is its \<open>Start\<close> event.
\<close>

text \<open>The callback of the reward sound (\<^verbatim>\<open>playEffect('posi', ...)\<close>): one draw for
  the 30\% chance of the cat sound (a sound without callback), then \<^verbatim>\<open>nextQuestion\<close>.\<close>

definition posiCallback :: "session \<Rightarrow> session js_result" where
  "posiCallback s = nextQuestion (s\<lparr>rnd := stl (rnd s)\<rparr>)"

text \<open>The listener of the replay button: \<^verbatim>\<open>playAudio\<close> of the current word if the
  question key is truthy and the word still has an entry. The button's lock while the
  clip plays is not modelled: the model lets it be pressed at any time.\<close>

definition replayAudio :: "session \<Rightarrow> session" where
  "replayAudio s =
     (case currentQuestionKey s of
        None \<Rightarrow> s
      | Some key \<Rightarrow>
          if \<not> js_truthy_str key then s
          else (case map_of (wordMap s) key of
                  None \<Rightarrow> s
                | Some d \<Rightarrow> s\<lparr>audio := audio_step (Start (original d)) (audio s)\<rparr>))"

datatype event = Click nat | EffectEnded | EffectFailed | DeleteConfirmed | Replay
  | AudioResponse nat tts_response

fun session_step :: "event \<Rightarrow> session \<Rightarrow> session js_result" where
  "session_step (Click i) s = handleSelection i s"
| "session_step EffectEnded s =
     (if pendingNext s = 0 then Done s else posiCallback (s\<lparr>pendingNext := pendingNext s - 1\<rparr>))"
| "session_step EffectFailed s =
     (if pendingNext s = 0 then Done s
      else js_then (posiCallback (s\<lparr>pendingNext := pendingNext s - 1\<rparr>)) posiCallback)"
| "session_step DeleteConfirmed s = removeCurrentWord s"
| "session_step Replay s = Done (replayAudio s)"
| "session_step (AudioResponse i r) s = Done (s\<lparr>audio := audio_step (Resolve i r) (audio s)\<rparr>)"

definition bar_of :: "session \<Rightarrow> bar" where
  "bar_of s = updateProgressBar (progressMap s) (sequence s) (deletedCount s)"

text \<open>
  The states a page reaches: a load from the initial state or, by restart or language
  change, from any reached state (of a catalog whose keys are distinct, every sequence
  key having an entry), then any event while the page is not reloaded, whether the
  handler finished or threw.
\<close>

inductive reach :: "session \<Rightarrow> bool" where
  load: "distinct (map fst wm) \<Longrightarrow> set seq \<subseteq> set (map fst wm) \<Longrightarrow>
         startLoading wm seq (init_session rs) = Done s \<Longrightarrow> reach s"
| reload: "reach s0 \<Longrightarrow> distinct (map fst wm) \<Longrightarrow> set seq \<subseteq> set (map fst wm) \<Longrightarrow>
         startLoading wm seq s0 = Done s \<Longrightarrow> reach s"
| step: "reach s \<Longrightarrow> \<not> reloaded s \<Longrightarrow> session_step e s = Done t \<Longrightarrow> reach t"
| step_thrown: "reach s \<Longrightarrow> \<not> reloaded s \<Longrightarrow> session_step e s = Thrown err t \<Longrightarrow> reach t"


text \<open>
  The session invariant: the progress map has distinct keys, each record obeys the
  mastery invariant, every progress key is a sequence key and a word-map key, the word
  map has distinct keys and \<^verbatim>\<open>allKeys\<close> lists them in order, the rendered cards show
  distinct words, and once the target of the rendered question is mastered every card
  of the target is checked.
\<close>

definition sess_inv :: "session \<Rightarrow> bool" where
  "sess_inv s \<longleftrightarrow>
     distinct (map fst (progressMap s)) \<and>
     (\<forall>k p. map_of (progressMap s) k = Some p \<longrightarrow> progress_ok p) \<and>
     set (map fst (progressMap s)) \<subseteq> set (sequence s) \<inter> set (map fst (wordMap s)) \<and>
     distinct (map fst (wordMap s)) \<and> allKeys s = map fst (wordMap s) \<and>
     distinct (map card_key (cards s)) \<and>
     (\<forall>p. map_of (progressMap s) (cardsTarget s) = Some p \<longrightarrow> mastered p \<longrightarrow>
        (\<forall>c\<in>set (cards s). card_key c = cardsTarget s \<longrightarrow> checked c))"

text \<open>
  A one-word package used by the witnesses below: the state after loading it (the
  question about its only word is on screen), and the state after that word is removed.
\<close>

abbreviation hund_entry :: "key \<times> word_data" where
  "hund_entry \<equiv> (''hund'', \<lparr>original = ''Hund'', wid = ''1'', images = [''a.png'']\<rparr>)"

abbreviation one_word_state :: session where
  "one_word_state \<equiv>
     \<lparr>wordMap = [hund_entry], sequence = [''hund''],
      progressMap = [(''hund'', mark_seen initial_progress)],
      currentGroupIndex = 0, groupSize = 5, activePool = [''hund''],
      currentQuestionKey = Some ''hund'', currentQuestionFailed = False,
      audio = \<lparr>audioCache = None, inFlight = [''Hund''], audioLang = [], speechAvailable = True,
               played = []\<rparr>,
      allKeys = [''hund''], deletedCount = 0, treatCount = 0,
      cards = [\<lparr>card_key = ''hund'', checked = False, card_image = Some ''a.png''\<rparr>],
      cardsTarget = ''hund'', pendingNext = 0, reloaded = False,
      rnd = sdrop 2 nats\<rparr>"

abbreviation one_word_removed :: session where
  "one_word_removed \<equiv>
     \<lparr>wordMap = [], sequence = [], progressMap = [],
      currentGroupIndex = 0, groupSize = 5, activePool = [],
      currentQuestionKey = Some ''hund'', currentQuestionFailed = False,
      audio = \<lparr>audioCache = None, inFlight = [''Hund''], audioLang = [], speechAvailable = True,
               played = []\<rparr>,
      allKeys = [], deletedCount = 1, treatCount = 0,
      cards = [\<lparr>card_key = ''hund'', checked = False, card_image = Some ''a.png''\<rparr>],
      cardsTarget = ''hund'', pendingNext = 0, reloaded = False,
      rnd = sdrop 2 nats\<rparr>"

subsection \<open>The scheduler and the renderer on the state\<close>

lemma applyPool_simps [simp]:
  "progressMap (applyPool s) = progressMap s" "sequence (applyPool s) = sequence s"
  "wordMap (applyPool s) = wordMap s" "allKeys (applyPool s) = allKeys s"
  "cards (applyPool s) = cards s" "cardsTarget (applyPool s) = cardsTarget s"
  "deletedCount (applyPool s) = deletedCount s" "rnd (applyPool s) = rnd s"
  "pendingNext (applyPool s) = pendingNext s" "groupSize (applyPool s) = groupSize s"
  "currentQuestionKey (applyPool s) = currentQuestionKey s" "audio (applyPool s) = audio s"
  by (simp_all add: applyPool_def split: pool_result.split)

lemma sess_inv_applyPool [simp]: "sess_inv (applyPool s) = sess_inv s"
  by (simp add: sess_inv_def)

lemma sess_inv_frame [simp]:
  "sess_inv (s\<lparr>audio := x\<rparr>) = sess_inv s" "sess_inv (s\<lparr>rnd := r\<rparr>) = sess_inv s"
  "sess_inv (s\<lparr>pendingNext := n\<rparr>) = sess_inv s" "sess_inv (s\<lparr>treatCount := n\<rparr>) = sess_inv s"
  by (simp_all add: sess_inv_def)

lemma applyPool_pool:
  assumes "k \<in> set (activePool (applyPool s))"
  shows "unmastered_in (map_of (progressMap s)) k \<and> k \<in> set (sequence s)"
proof -
  let ?pm = "map_of (progressMap s)"
  obtain gi' where "updateActivePool (sequence s) ?pm (currentGroupIndex s) (groupSize s) =
        Active gi' (filter (unmastered_in ?pm) (window (sequence s) gi' (groupSize s)))
      \<or> (\<exists>g. updateActivePool (sequence s) ?pm (currentGroupIndex s) (groupSize s) = Completed g)"
    using updateActivePool_cases [where sequence = "sequence s" and pm = ?pm
        and gi = "currentGroupIndex s" and gs = "groupSize s"] by blast
  then show ?thesis
    using assms by (auto simp: applyPool_def window_def dest: js_slice_set [THEN subsetD])
qed

lemma render_cards_keys:
  "render_cards wm ks rs = Some (cs, rs') \<Longrightarrow> map card_key cs = ks \<and> (\<forall>c\<in>set cs. \<not> checked c)"
  by (induction wm ks rs arbitrary: cs rs' rule: render_cards.induct)
     (auto simp: Let_def split: option.splits)

lemma render_cards_Some:
  "set ks \<subseteq> set (map fst wm) \<Longrightarrow> \<exists>cs rs'. render_cards wm ks rs = Some (cs, rs')"
proof (induction ks arbitrary: rs)
  case (Cons k ks)
  then obtain d where d: "map_of wm k = Some d"
    by (cases "map_of wm k") (auto simp: map_of_eq_None_iff)
  have "\<exists>cs rs'. render_cards wm ks (stl rs) = Some (cs, rs')" using Cons.IH Cons.prems by simp
  then obtain cs rs' where "render_cards wm ks (stl rs) = Some (cs, rs')" by blast
  with d show ?case by (simp add: Let_def)
qed simp

subsection \<open>One question\<close>

text \<open>The question \<^verbatim>\<open>nextQuestion\<close> picks has an unmastered progress record and a word.\<close>

lemma nextQuestion_pick:
  assumes inv: "sess_inv s0" and pool: "activePool (applyPool s0) \<noteq> []"
    and k: "k = activePool (applyPool s0) ! rand_index (shd (rnd s0)) (length (activePool (applyPool s0)))"
  shows "k \<in> set (activePool (applyPool s0)) \<and>
         (\<exists>p. map_of (progressMap s0) k = Some p \<and> \<not> mastered p) \<and>
         (\<exists>d. map_of (wordMap s0) k = Some d)"
proof -
  have kin: "k \<in> set (activePool (applyPool s0))" using pool by (simp add: k rand_index_less)
  then obtain p where p: "map_of (progressMap s0) k = Some p" and nm: "\<not> mastered p"
    using applyPool_pool unmastered_in_Some by blast
  have "k \<in> set (map fst (progressMap s0))" using p by (force dest: map_of_SomeD)
  then have "k \<in> set (map fst (wordMap s0))" using inv by (auto simp: sess_inv_def)
  then have "map_of (wordMap s0) k \<noteq> None" by (simp add: map_of_eq_None_iff)
  with kin p nm show ?thesis by blast
qed

lemma nextQuestion_picked:
  assumes pool: "activePool (applyPool s0) \<noteq> []"
    and k: "k = activePool (applyPool s0) ! rand_index (shd (rnd s0)) (length (activePool (applyPool s0)))"
    and p: "map_of (progressMap s0) k = Some p" and d: "map_of (wordMap s0) k = Some d"
  shows "nextQuestion s0 =
    (case generateOptions k (allKeys s0) (stl (rnd s0)) of
       None \<Rightarrow> Hangs
     | Some (opts, rs) \<Rightarrow>
         (case render_cards (wordMap s0) opts rs of
            None \<Rightarrow> Thrown TypeError (applyPool s0\<lparr>audio := audio_step ClearCache (audio s0), currentQuestionKey := Some k,
                     currentQuestionFailed := False, rnd := stl (rnd s0),
                     progressMap := AList.update k (mark_seen p) (progressMap s0),
                     cards := [], cardsTarget := k\<rparr>)
          | Some (cs, rs') \<Rightarrow> Done (applyPool s0\<lparr>currentQuestionKey := Some k,
                     currentQuestionFailed := False, rnd := rs',
                     progressMap := AList.update k (mark_seen p) (progressMap s0),
                     cards := cs, cardsTarget := k,
                     audio := audio_step (Start (original d)) (audio_step ClearCache (audio s0))\<rparr>)))"
  using pool p d by (auto simp: nextQuestion_def Let_def k [symmetric] split: option.split)

lemma sess_inv_mark_seen:
  assumes inv: "sess_inv s" and p: "map_of (progressMap s) k = Some p" and nm: "\<not> mastered p"
  shows "sess_inv (s\<lparr>progressMap := AList.update k (mark_seen p) (progressMap s)\<rparr>)"
proof -
  have "k \<in> set (map fst (progressMap s))" using p by (force dest: map_of_SomeD)
  then have keys: "map fst (AList.update k (mark_seen p) (progressMap s)) = map fst (progressMap s)"
    by (rule update_present_keys)
  have ok: "progress_ok p" using inv p unfolding sess_inv_def by blast
  show ?thesis
    using inv nm ok keys [symmetric] by (auto simp: sess_inv_def update_conv' progress_ok_mark_seen)
qed

lemma nextQuestion_inv:
  assumes inv: "sess_inv s0" and r: "nextQuestion s0 = Done t \<or> nextQuestion s0 = Thrown e t"
  shows "sess_inv t"
proof (cases "activePool (applyPool s0) = []")
  case True
  then show ?thesis using r inv by (auto simp: nextQuestion_def)
next
  case False
  define k where "k = activePool (applyPool s0) ! rand_index (shd (rnd s0)) (length (activePool (applyPool s0)))"
  obtain p d where p: "map_of (progressMap s0) k = Some p" and nm: "\<not> mastered p"
    and d: "map_of (wordMap s0) k = Some d"
    using nextQuestion_pick [OF inv False k_def] by blast
  let ?s2 = "applyPool s0\<lparr>progressMap := AList.update k (mark_seen p) (progressMap s0)\<rparr>"
  have inv2: "sess_inv ?s2" using sess_inv_mark_seen [of "applyPool s0" k p] inv p nm by simp
  have tgt: "map_of (progressMap ?s2) k = Some (mark_seen p)" by (simp add: update_conv')
  note nq = nextQuestion_picked [OF False k_def p d]
  show ?thesis
  proof (cases "generateOptions k (allKeys s0) (stl (rnd s0))")
    case None
    with r show ?thesis by (simp add: nq)
  next
    case (Some res)
    obtain opts rs where g: "generateOptions k (allKeys s0) (stl (rnd s0)) = Some (opts, rs)"
      using Some by (cases res) auto
    show ?thesis
    proof (cases "render_cards (wordMap s0) opts rs")
      case None
      have "sess_inv (applyPool s0\<lparr>audio := audio_step ClearCache (audio s0), currentQuestionKey := Some k,
          currentQuestionFailed := False, rnd := stl (rnd s0),
          progressMap := AList.update k (mark_seen p) (progressMap s0), cards := [], cardsTarget := k\<rparr>)"
        using inv2 tgt nm by (simp add: sess_inv_def)
      with r g None show ?thesis by (auto simp: nq)
    next
      case (Some cr)
      obtain cs rs' where rc: "render_cards (wordMap s0) opts rs = Some (cs, rs')"
        using Some by (cases cr) auto
      have "distinct (map card_key cs)"
        using render_cards_keys [OF rc] generateOptions_keys [OF g] by metis
      then have "sess_inv (applyPool s0\<lparr>currentQuestionKey := Some k,
          currentQuestionFailed := False, rnd := rs', progressMap := AList.update k (mark_seen p) (progressMap s0),
          cards := cs, cardsTarget := k,
          audio := audio_step (Start (original d)) (audio_step ClearCache (audio s0))\<rparr>)"
        using inv2 tgt nm by (simp add: sess_inv_def)
      with r g rc show ?thesis by (auto simp: nq)
    qed
  qed
qed

lemma posiCallback_inv:
  "sess_inv s \<Longrightarrow> posiCallback s = Done t \<or> posiCallback s = Thrown e t \<Longrightarrow> sess_inv t"
  using nextQuestion_inv [of "s\<lparr>rnd := stl (rnd s)\<rparr>" t e] by (simp add: posiCallback_def)

subsection \<open>One answer\<close>

lemma handleSelection_inv:
  assumes inv: "sess_inv s" and r: "handleSelection i s = Done t \<or> handleSelection i s = Thrown e t"
  shows "sess_inv t"
proof (cases "length (cards s) \<le> i \<or> checked (cards s ! i)")
  case True
  then show ?thesis using r inv by (auto simp: handleSelection_def Let_def split: if_splits)
next
  case False
  then have i: "i < length (cards s)" and nc: "\<not> checked (cards s ! i)" by auto
  let ?c = "cards s ! i"
  let ?x = "?c\<lparr>checked := True\<rparr>"
  let ?cs = "(cards s)[i := ?x]"
  let ?T = "cardsTarget s"
  have keys: "map card_key ?cs = map card_key (cards s)" using i by (simp add: map_update list_update_same_conv)
  have cin: "?c \<in> set (cards s)" using i by simp
  have dist: "distinct (map card_key (cards s))" using inv by (simp add: sess_inv_def)
  have only: "c' = ?x" if "c' \<in> set ?cs" and "card_key c' = card_key ?c" for c'
    using distinct_key_update_unique [OF dist i _ that(1)] that(2) by simp
  have others: "c' \<in> set (cards s)" if "c' \<in> set ?cs" and "c' \<noteq> ?x" for c'
    using that set_update_subset_insert [of "cards s" i ?x] by auto
  show ?thesis
  proof (cases "card_key ?c = ?T")
    case correct: True
    show ?thesis
    proof (cases "map_of (progressMap s) ?T")
      case None
      then have "t = s\<lparr>cards := ?cs\<rparr>" using r i nc correct by (simp add: handleSelection_def Let_def)
      then show ?thesis using inv keys None by (simp add: sess_inv_def)
    next
      case (Some p)
      have nm: "\<not> mastered p" using inv Some cin nc correct unfolding sess_inv_def by blast
      have ok: "progress_ok p" using inv Some unfolding sess_inv_def by blast
      have kin: "?T \<in> set (map fst (progressMap s))" using Some by (force dest: map_of_SomeD)
      let ?q = "advance_progress p (currentQuestionFailed s)"
      have t: "t = s\<lparr>cards := ?cs, progressMap := AList.update ?T ?q (progressMap s),
                      treatCount := Suc (treatCount s), pendingNext := Suc (pendingNext s)\<rparr>"
        using r i nc correct Some by (simp add: handleSelection_def Let_def)
      have pk: "map fst (AList.update ?T ?q (progressMap s)) = map fst (progressMap s)"
        using kin by (rule update_present_keys)
      have "\<forall>c'\<in>set ?cs. card_key c' = ?T \<longrightarrow> checked c'"
        using only correct by fastforce
      then show ?thesis
        using inv keys pk [symmetric] t progress_ok_advance [OF ok nm]
        by (auto simp: sess_inv_def update_conv')
    qed
  next
    case wrong: False
    then have t: "t = s\<lparr>cards := ?cs, currentQuestionFailed := True\<rparr>"
      using r i nc by (simp add: handleSelection_def Let_def)
    have "\<forall>c'\<in>set ?cs. card_key c' = ?T \<longrightarrow> c' \<in> set (cards s)"
      using others wrong by fastforce
    then show ?thesis using inv keys t by (auto simp: sess_inv_def)
  qed
qed

subsection \<open>Removal, loading and the event loop\<close>

lemma sess_inv_delete:
  assumes inv: "sess_inv s"
  shows "sess_inv (s\<lparr>wordMap := AList.delete key (wordMap s), sequence := remove1 key (sequence s),
                      allKeys := remove1 key (allKeys s), progressMap := AList.delete key (progressMap s),
                      deletedCount := n\<rparr>)"
proof -
  have dp: "distinct (map fst (progressMap s))" and dw: "distinct (map fst (wordMap s))"
    and ak: "allKeys s = map fst (wordMap s)"
    and sub: "set (map fst (progressMap s)) \<subseteq> set (sequence s) \<inter> set (map fst (wordMap s))"
    using inv by (simp_all add: sess_inv_def)
  have kp: "set (map fst (AList.delete key (progressMap s))) = set (map fst (progressMap s)) - {key}"
    and kw: "set (map fst (AList.delete key (wordMap s))) = set (map fst (wordMap s)) - {key}"
    using dp dw by (simp_all only: keys_delete)
  have "set (map fst (AList.delete key (progressMap s))) \<subseteq>
          set (remove1 key (sequence s)) \<inter> set (map fst (AList.delete key (wordMap s)))"
    unfolding kp kw using sub set_remove1_superset [of "sequence s" key] by blast
  moreover have "remove1 key (allKeys s) = map fst (AList.delete key (wordMap s))"
    using ak dw by (simp add: remove1_keys_delete)
  ultimately show ?thesis
    using inv dp dw by (auto simp: sess_inv_def distinct_keys_delete delete_conv)
qed

lemma removeCurrentWord_inv:
  assumes inv: "sess_inv s" and r: "removeCurrentWord s = Done t \<or> removeCurrentWord s = Thrown e t"
  shows "sess_inv t"
proof (cases "\<exists>key. currentQuestionKey s = Some key \<and> js_truthy_str key")
  case True
  then obtain key where "currentQuestionKey s = Some key" and "js_truthy_str key" by blast
  then show ?thesis
    using r nextQuestion_inv [OF sess_inv_delete [OF inv]] by (simp add: removeCurrentWord_def)
next
  case False
  then show ?thesis using r inv by (auto simp: removeCurrentWord_def split: option.splits)
qed

lemma session_step_inv:
  assumes inv: "sess_inv s" and r: "session_step ev s = Done t \<or> session_step ev s = Thrown e t"
  shows "sess_inv t"
proof (cases ev)
  case (Click i)
  then show ?thesis using handleSelection_inv [OF inv] r by simp
next
  case EffectEnded
  then show ?thesis
    using r inv posiCallback_inv [of "s\<lparr>pendingNext := pendingNext s - 1\<rparr>" t e] by (auto split: if_splits)
next
  case EffectFailed
  have inv1: "sess_inv (s\<lparr>pendingNext := pendingNext s - 1\<rparr>)" using inv by simp
  show ?thesis
  proof (cases "pendingNext s = 0")
    case False
    then show ?thesis
      using EffectFailed r posiCallback_inv [OF inv1] posiCallback_inv
      by (cases "posiCallback (s\<lparr>pendingNext := pendingNext s - 1\<rparr>)") auto
  qed (use EffectFailed r inv in simp)
next
  case DeleteConfirmed
  then show ?thesis using removeCurrentWord_inv [OF inv] r by simp
next
  case Replay
  then show ?thesis using inv r by (auto simp: replayAudio_def split: option.splits if_splits)
next
  case (AudioResponse i resp)
  then show ?thesis using inv r by (auto simp del: audio_step.simps)
qed

lemma loadData_inv:
  assumes dw: "distinct (map fst wm)" and seq: "set seq \<subseteq> set (map fst wm)"
    and dc: "distinct (map card_key (cards s))" and r: "loadData wm seq s = Done t"
  shows "sess_inv t"
proof -
  let ?pm = "fold (\<lambda>k acc. AList.update k initial_progress acc) seq []"
  let ?sh = "shuffleArray seq (rnd s)"
  have t: "t = s\<lparr>wordMap := wm, sequence := fst ?sh, progressMap := ?pm, allKeys := map fst wm,
                  rnd := snd ?sh\<rparr>"
    using r by (auto simp: loadData_def Let_def split: if_splits)
  have vals: "map_of ?pm k = Some p \<Longrightarrow> p = initial_progress" for k p
    using fold_update_values [of initial_progress seq "[]" k p] by simp
  have dpm: "distinct (map fst ?pm)" by (rule fold_update_distinct) simp
  have kpm: "set (map fst ?pm) = set seq" using fold_update_keys [of initial_progress seq "[]"] by simp
  have ok: "\<forall>k p. map_of ?pm k = Some p \<longrightarrow> progress_ok p"
    using vals progress_ok_initial by blast
  have nm: "\<forall>p. map_of ?pm k = Some p \<longrightarrow> \<not> mastered p" for k
  proof (intro allI impI)
    fix p assume "map_of ?pm k = Some p"
    then have "p = initial_progress" by (rule vals)
    then show "\<not> mastered p" by (simp add: initial_progress_def)
  qed
  have sh: "set (fst ?sh) = set seq" using shuffleArray_mset [of seq "rnd s"] by (metis mset_eq_setD)
  show ?thesis
    unfolding sess_inv_def t using dpm kpm ok nm sh dw seq dc
    by (simp del: map_of_eq_Some_iff)
qed

lemma startGame_inv:
  assumes inv: "sess_inv s" and r: "startGame s = Done t \<or> startGame s = Thrown e t"
  shows "sess_inv t"
proof -
  have "sess_inv (applyPool (s\<lparr>currentGroupIndex := 0\<rparr>))" using inv by (simp add: sess_inv_def)
  from this r show ?thesis unfolding startGame_def by (rule nextQuestion_inv)
qed

lemma startLoading_inv:
  assumes "distinct (map fst wm)" and "set seq \<subseteq> set (map fst wm)"
    and "distinct (map card_key (cards s))" and r: "startLoading wm seq s = Done t"
  shows "sess_inv t"
proof (cases "loadData wm seq s")
  case (Done s1)
  then show ?thesis using r startGame_inv loadData_inv [OF assms(1-3) Done] by (simp add: startLoading_def)
qed (use r in \<open>simp_all add: startLoading_def\<close>)

lemma reach_inv: "reach s \<Longrightarrow> sess_inv s"
proof (induction rule: reach.induct)
  case (load wm seq rs s)
  then show ?case using startLoading_inv [of wm seq "init_session rs" s] by (simp add: init_session_def)
next
  case (reload s0 wm seq s)
  then show ?case using startLoading_inv [OF reload.hyps(2,3) _ reload.hyps(4)] by (simp add: sess_inv_def)
next
  case (step s e t)
  then show ?case using session_step_inv by blast
next
  case (step_thrown s e err t)
  then show ?case using session_step_inv by blast
qed

subsection \<open>What one question changes\<close>

text \<open>
  A finished \<^verbatim>\<open>nextQuestion\<close> either found an empty pool and only moved the window, or
  asked an unmastered word of the pool: it counted the word as seen, rendered the options
  \<^verbatim>\<open>generateOptions\<close> built, unchecked, and reset the attempt flag and the audio cache.
\<close>

lemma nextQuestion_Done:
  assumes inv: "sess_inv s" and r: "nextQuestion s = Done t"
  shows "wordMap t = wordMap s \<and> sequence t = sequence s \<and> allKeys t = allKeys s \<and>
         deletedCount t = deletedCount s \<and> activePool t = activePool (applyPool s) \<and>
         (t = applyPool s \<and> activePool t = [] \<or>
          (\<exists>k p opts rs. k \<in> set (activePool t) \<and> map_of (progressMap s) k = Some p \<and> \<not> mastered p \<and>
             generateOptions k (allKeys s) (stl (rnd s)) = Some (opts, rs) \<and>
             currentQuestionKey t = Some k \<and> cardsTarget t = k \<and> \<not> currentQuestionFailed t \<and>
             audioCache (audio t) = None \<and>
             progressMap t = AList.update k (mark_seen p) (progressMap s) \<and>
             map card_key (cards t) = opts \<and> filter checked (cards t) = []))"
proof (cases "activePool (applyPool s) = []")
  case True
  then show ?thesis using r by (auto simp: nextQuestion_def)
next
  case False
  define k where "k = activePool (applyPool s) ! rand_index (shd (rnd s)) (length (activePool (applyPool s)))"
  obtain p d where p: "map_of (progressMap s) k = Some p" and nm: "\<not> mastered p"
    and d: "map_of (wordMap s) k = Some d" and kin: "k \<in> set (activePool (applyPool s))"
    using nextQuestion_pick [OF inv False k_def] by blast
  from r obtain opts rs cs rs' where g: "generateOptions k (allKeys s) (stl (rnd s)) = Some (opts, rs)"
    and rc: "render_cards (wordMap s) opts rs = Some (cs, rs')"
    and t: "t = applyPool s\<lparr>currentQuestionKey := Some k,
                     currentQuestionFailed := False, rnd := rs',
                     progressMap := AList.update k (mark_seen p) (progressMap s),
                     cards := cs, cardsTarget := k,
                     audio := audio_step (Start (original d)) (audio_step ClearCache (audio s))\<rparr>"
    unfolding nextQuestion_picked [OF False k_def p d] by (auto split: option.splits)
  have keys: "map card_key cs = opts" and unch: "filter checked cs = []"
    using render_cards_keys [OF rc] by (auto simp: filter_empty_conv)
  have frame: "wordMap t = wordMap s \<and> sequence t = sequence s \<and> allKeys t = allKeys s \<and>
         deletedCount t = deletedCount s \<and> activePool t = activePool (applyPool s)"
    using t by simp
  have "k \<in> set (activePool t) \<and> map_of (progressMap s) k = Some p \<and> \<not> mastered p \<and>
         generateOptions k (allKeys s) (stl (rnd s)) = Some (opts, rs) \<and>
         currentQuestionKey t = Some k \<and> cardsTarget t = k \<and> \<not> currentQuestionFailed t \<and>
         audioCache (audio t) = None \<and>
         progressMap t = AList.update k (mark_seen p) (progressMap s) \<and>
         map card_key (cards t) = opts \<and> filter checked (cards t) = []"
    using t g kin p nm keys unch by simp
  with frame show ?thesis by blast
qed

lemma nextQuestion_not_Thrown:
  assumes inv: "sess_inv s"
  shows "nextQuestion s \<noteq> Thrown e t"
proof (cases "activePool (applyPool s) = []")
  case True
  then show ?thesis by (simp add: nextQuestion_def)
next
  case False
  define k where "k = activePool (applyPool s) ! rand_index (shd (rnd s)) (length (activePool (applyPool s)))"
  obtain p d where p: "map_of (progressMap s) k = Some p"
    and d: "map_of (wordMap s) k = Some d"
    using nextQuestion_pick [OF inv False k_def] by blast
  have ak: "allKeys s = map fst (wordMap s)" using inv by (simp add: sess_inv_def)
  have kw: "k \<in> set (map fst (wordMap s))" using map_of_SomeD [OF d] by force
  note nq = nextQuestion_picked [OF False k_def p d]
  show ?thesis
  proof (cases "generateOptions k (allKeys s) (stl (rnd s))")
    case None
    then show ?thesis by (simp add: nq)
  next
    case (Some res)
    obtain opts rs where res: "res = (opts, rs)" by (cases res)
    have "set opts \<subseteq> set (map fst (wordMap s))"
      using generateOptions_keys [of k "allKeys s" "stl (rnd s)" opts rs] Some res kw ak by auto
    then obtain cs rs' where "render_cards (wordMap s) opts rs = Some (cs, rs')"
      using render_cards_Some by blast
    then show ?thesis using Some res by (simp add: nq)
  qed
qed

lemma masteredCount_mark_seen:
  "distinct (map fst pm) \<Longrightarrow> map_of pm k = Some p \<Longrightarrow>
   masteredCount (AList.update k (mark_seen p) pm) = masteredCount pm"
  using filter_snd_update_present [of pm k p mastered "mark_seen p"] by (simp add: masteredCount_def)

lemma masteredCount_delete:
  "distinct (map fst pm) \<Longrightarrow> map_of pm k = Some p \<Longrightarrow>
   masteredCount (AList.delete k pm) + (if mastered p then 1 else 0) = masteredCount pm"
  using filter_snd_delete_present [of pm k p mastered] by (simp add: masteredCount_def)

lemma masteredCount_le_card:
  assumes "sess_inv s"
  shows "masteredCount (progressMap s) \<le> card (set (sequence s))"
proof -
  have d: "distinct (map fst (progressMap s))"
    and sub: "set (map fst (progressMap s)) \<subseteq> set (sequence s)"
    using assms by (auto simp: sess_inv_def)
  have "masteredCount (progressMap s) \<le> length (map fst (progressMap s))"
    using masteredCount_le by simp
  also have "\<dots> = card (set (map fst (progressMap s)))" using distinct_card [OF d] by simp
  also have "\<dots> \<le> card (set (sequence s))" using sub by (simp add: card_mono)
  finally show ?thesis .
qed

lemma masteredCount_le_sequence:
  assumes "sess_inv s"
  shows "masteredCount (progressMap s) \<le> length (sequence s)"
  using masteredCount_le_card [OF assms] card_length [of "sequence s"] by linarith

text \<open>A question leaves the progress bar as it was: only the seen counter changes.\<close>

lemma nextQuestion_bar:
  assumes inv: "sess_inv s" and r: "nextQuestion s = Done t"
  shows "bar_of t = bar_of s"
proof -
  have d: "distinct (map fst (progressMap s))" using inv by (simp add: sess_inv_def)
  note nq = nextQuestion_Done [OF inv r]
  have "masteredCount (progressMap t) = masteredCount (progressMap s)"
  proof (cases "t = applyPool s")
    case True
    then show ?thesis by simp
  next
    case False
    with nq obtain k p where "map_of (progressMap s) k = Some p"
      and "progressMap t = AList.update k (mark_seen p) (progressMap s)" by blast
    then show ?thesis using masteredCount_mark_seen [OF d] by simp
  qed
  then show ?thesis using nq by (simp add: bar_of_def updateProgressBar_def)
qed

subsection \<open>Removal\<close>

text \<open>The state \<^verbatim>\<open>removeCurrentWord\<close> hands to \<^verbatim>\<open>nextQuestion\<close>.\<close>

lemma removeCurrentWord_key:
  assumes "currentQuestionKey s = Some k" and "k \<noteq> []"
  shows "removeCurrentWord s =
           nextQuestion (s\<lparr>wordMap := AList.delete k (wordMap s), sequence := remove1 k (sequence s),
                           allKeys := remove1 k (allKeys s), progressMap := AList.delete k (progressMap s),
                           deletedCount := Suc (deletedCount s)\<rparr>)"
  using assms by (simp add: removeCurrentWord_def js_truthy_str_def)

lemma ratio_step: "x \<le> y \<Longrightarrow> x * (Suc y) \<le> (Suc x) * (y :: nat)"
  by (simp add: algebra_simps)

subsection \<open>The one-word package\<close>

lemma one_word_load:
  "startLoading [hund_entry] [''hund''] (init_session nats) = Done one_word_state"
  by (simp add: startLoading_def loadData_def Let_def shuffleArray_def startGame_def init_session_def
      applyPool_def updateActivePool.simps window_def js_slice_def unmastered_in_def initial_progress_def
      nextQuestion_def rand_index_def generateOptions_def gen_loop_stop numeral_2_eq_2)

lemma one_word_reach: "reach one_word_state"
  by (rule reach.load [OF _ _ one_word_load]) simp_all

lemma one_word_remove: "removeCurrentWord one_word_state = Done one_word_removed"
  unfolding removeCurrentWord_def session.simps option.case js_truthy_str_def
  by (simp add: nextQuestion_def applyPool_def updateActivePool.simps window_def js_slice_def)

lemma one_word_removed_reach: "reach one_word_removed"
proof (rule reach.step [OF one_word_reach])
  show "session_step DeleteConfirmed one_word_state = Done one_word_removed"
    by (simp only: session_step.simps one_word_remove)
qed simp

end
