(* ===== verification/Catalog.thy ===== *)
theory Catalog
  imports Session
begin

text \<open>
  The WordCatalog: \<^verbatim>\<open>normalizeText\<close>, \<^verbatim>\<open>parseScaleCSV\<close> and the part of
  \<^verbatim>\<open>loadData\<close> before the parsed catalog reaches the session (the fetch and the
  parse). Strings are HOL strings, lists of 8-bit characters: \<^verbatim>\<open>toLowerCase\<close>,
  the regular expressions' \<^verbatim>\<open>\s\<close> and \<^verbatim>\<open>trim\<close> are modelled on the code points
  0 to 255, which are all such a string holds. \<^verbatim>\<open>PACKAGE_MANIFEST\<close> (a generated file
  outside the sources) is a parameter: package name to image lists by word id.
\<close>

text \<open>\<^verbatim>\<open>String.prototype.toLowerCase\<close> on Latin-1: A--Z and U+00C0--U+00DE except
  the multiplication sign U+00D7 move up by 32; every other character stays.\<close>

definition js_lower_char :: "char \<Rightarrow> char" where
  "js_lower_char c =
     (let n = of_char c :: nat
      in if (65 \<le> n \<and> n \<le> 90) \<or> (192 \<le> n \<and> n \<le> 222 \<and> n \<noteq> 215) then char_of (n + 32) else c)"

definition js_lower :: "string \<Rightarrow> string" where
  "js_lower s = map js_lower_char s"

text \<open>White space of \<^verbatim>\<open>\s\<close> and of \<^verbatim>\<open>trim\<close> below U+0100: tab, line feed, vertical
  tab, form feed, carriage return, space and no-break space.\<close>

definition js_space :: "char \<Rightarrow> bool" where
  "js_space c \<longleftrightarrow> of_char c \<in> {9, 10, 11, 12, 13, 32, 160 :: nat}"

definition js_trim :: "string \<Rightarrow> string" where
  "js_trim s = rev (dropWhile js_space (rev (dropWhile js_space s)))"

text \<open>\<^verbatim>\<open>str.replace(/^(a1|a2|...)\s+/, '')\<close>: the first alternative that matches at the
  start followed by at least one white-space character is removed with all the white
  space after it (\<^verbatim>\<open>\s+\<close> is greedy).\<close>

fun strip_article :: "string list \<Rightarrow> string \<Rightarrow> string" where
  "strip_article [] s = s"
| "strip_article (a # as) s =
     (let r = drop (length a) s
      in if take (length a) s = a \<and> r \<noteq> [] \<and> js_space (hd r) then dropWhile js_space r
         else strip_article as s)"

definition normalizeText :: "string \<Rightarrow> string \<Rightarrow> string" where
  "normalizeText currentLang text =
     (let str = js_lower text;
          str = (if currentLang = ''de'' then strip_article [''der'', ''die'', ''das''] str else str);
          str = (if currentLang = ''es'' then strip_article [''el'', ''la'', ''los'', ''las''] str else str)
      in js_trim str)"

text \<open>\<^verbatim>\<open>String.prototype.split\<close> with a one-character separator, and its inverse
  \<^verbatim>\<open>Array.prototype.join\<close>.\<close>

fun js_split :: "char \<Rightarrow> string \<Rightarrow> string list" where
  "js_split c [] = [[]]"
| "js_split c (x # xs) =
     (let r = js_split c xs in if x = c then [] # r else (x # hd r) # tl r)"

fun js_join :: "char \<Rightarrow> string list \<Rightarrow> string" where
  "js_join c [] = []"
| "js_join c [w] = w"
| "js_join c (w # ws) = w @ c # js_join c ws"

type_synonym package_images = "(string \<times> string list) list"
type_synonym manifest = "(string \<times> package_images) list"

text \<open>One iteration of the loop over the lines of \<^verbatim>\<open>index.csv\<close>.\<close>

definition parse_line ::
  "string \<Rightarrow> string \<Rightarrow> package_images \<Rightarrow> string \<Rightarrow>
   (key \<times> word_data) list \<times> key list \<Rightarrow> (key \<times> word_data) list \<times> key list" where
  "parse_line currentLang packageName packageImages raw acc =
     (let line = js_trim raw
      in if line = [] then acc
         else
           (let parts = js_split (CHR '','') line
            in if length parts < 2 then acc
               else
                 (let word = js_trim (last parts);
                      wordId = js_trim (parts ! (length parts - 2))
                  in case map_of packageImages wordId of
                       None \<Rightarrow> acc
                     | Some imgs \<Rightarrow>
                         if imgs = [] then acc
                         else
                           (let normalized = normalizeText currentLang word
                            in (AList.update normalized
                                  \<lparr>original = word, wid = wordId,
                                   images = map (\<lambda>img. packageName @ ''/'' @ wordId @ ''/'' @ img) imgs\<rparr>
                                  (fst acc),
                                snd acc @ [normalized])))))"

text \<open>\<^verbatim>\<open>parseScaleCSV\<close>: \<open>None\<close> is the early return when the manifest has no entry for
  the package (the word map stays cleared and the old sequence stays); otherwise the
  word map and the new sequence, the header line skipped.\<close>

definition parseScaleCSV ::
  "string \<Rightarrow> manifest \<Rightarrow> string \<Rightarrow> string \<Rightarrow> ((key \<times> word_data) list \<times> key list) option" where
  "parseScaleCSV currentLang packageManifest text packageName =
     (case map_of packageManifest packageName of
        None \<Rightarrow> None
      | Some packageImages \<Rightarrow>
          Some (fold (parse_line currentLang packageName packageImages)
                     (drop 1 (js_split (CHR 0x0A) text)) ([], [])))"

text \<open>\<^verbatim>\<open>loadData\<close> from the fetch on: a failed response (\<open>None\<close>) throws after both
  maps were cleared; an early return of the parser leaves an empty word map, so the
  key list is empty and \<^verbatim>\<open>loadData\<close> throws; otherwise the session part of
  \<^verbatim>\<open>loadData\<close> runs on the parsed catalog.\<close>

definition loadPackage ::
  "string \<Rightarrow> manifest \<Rightarrow> string \<Rightarrow> string option \<Rightarrow> session \<Rightarrow> session js_result" where
  "loadPackage currentLang packageManifest packageName response s =
     (let s0 = s\<lparr>wordMap := [], progressMap := []\<rparr>
      in case response of
           None \<Rightarrow> Thrown DataUnavailable s0
         | Some text \<Rightarrow>
             (case parseScaleCSV currentLang packageManifest text packageName of
                None \<Rightarrow> loadData [] (sequence s0) s0
              | Some (wm, seq) \<Rightarrow> loadData wm seq s0))"

text \<open>\<^verbatim>\<open>startLoading\<close>: \<^verbatim>\<open>await loadData\<close>, then \<^verbatim>\<open>startGame\<close>; an error of
  either is caught and shown.\<close>

definition startLoadingPackage ::
  "string \<Rightarrow> manifest \<Rightarrow> string \<Rightarrow> string option \<Rightarrow> session \<Rightarrow> session js_result" where
  "startLoadingPackage currentLang packageManifest packageName response s =
     js_then (loadPackage currentLang packageManifest packageName response s) startGame"

lemmas catalog_eval = normalizeText_def js_lower_def js_lower_char_def js_trim_def js_space_def
  Let_def char_of_eq_iff parse_line_def parseScaleCSV_def

subsection \<open>Lower case and trimming\<close>

lemma js_lower_char_idem [simp]: "js_lower_char (js_lower_char c) = js_lower_char c"
proof -
  have "of_char (char_of (n + 32) :: char) = n + 32" if "n < 223" for n :: nat
    using that by (simp add: of_char_of)
  then show ?thesis
    using nat_of_char_less_256 [of c] by (auto simp: js_lower_char_def Let_def)
qed

lemma set_dropWhile_subset: "set (dropWhile P xs) \<subseteq> set xs"
  by (induction xs) auto

lemma set_js_trim: "set (js_trim s) \<subseteq> set s"
proof -
  have "set (js_trim s) \<subseteq> set (rev (dropWhile js_space s))"
    using set_dropWhile_subset [of js_space "rev (dropWhile js_space s)"] by (simp add: js_trim_def)
  also have "\<dots> \<subseteq> set s" using set_dropWhile_subset [of js_space s] by simp
  finally show ?thesis .
qed

lemma set_strip_article: "set (strip_article as s) \<subseteq> set s"
  by (induction as s rule: strip_article.induct)
     (auto simp: Let_def dest: set_dropWhileD in_set_dropD)

lemma js_lower_fixed: "\<forall>c\<in>set s. js_lower_char c = c \<Longrightarrow> js_lower s = s"
  by (simp add: js_lower_def map_idI)

lemma dropWhile_hd_not:
  "dropWhile P xs \<noteq> [] \<Longrightarrow> \<not> P (hd (dropWhile P xs))"
  by (induction xs) auto

lemma js_trim_idem: "js_trim (js_trim s) = js_trim s"
proof -
  define u where "u = dropWhile js_space s"
  define v where "v = dropWhile js_space (rev u)"
  have t: "js_trim s = rev v" by (simp add: js_trim_def u_def v_def)
  show ?thesis
  proof (cases "v = []")
    case True
    then have e: "js_trim s = []" using t by simp
    show ?thesis unfolding e by (simp add: js_trim_def)
  next
    case False
    have hv: "\<not> js_space (hd v)"
      unfolding v_def by (rule dropWhile_hd_not) (metis False v_def)
    obtain w where ru: "rev u = w @ v" by (metis takeWhile_dropWhile_id v_def)
    have uv: "u = rev v @ rev w" using ru by (metis rev_append rev_rev_ident)
    have "u \<noteq> []" using uv False by simp
    then have hu: "\<not> js_space (hd u)"
      unfolding u_def by (rule dropWhile_hd_not)
    have "hd (rev v) = hd u" using uv False by simp
    then have d1: "dropWhile js_space (rev v) = rev v" using hu False by (cases "rev v") auto
    have d2: "dropWhile js_space v = v" using hv False by (cases v) auto
    show ?thesis unfolding t by (simp add: js_trim_def d1 d2)
  qed
qed

subsection \<open>The article pattern\<close>


subsection \<open>Splitting and joining\<close>

lemma js_split_nonempty [simp]: "js_split c s \<noteq> []"
  by (induction s) (auto simp: Let_def)


lemma js_split_no_sep: "c \<notin> set w \<Longrightarrow> js_split c w = [w]"
  by (induction w) (auto simp: Let_def)

lemma js_split_sep: "c \<notin> set w \<Longrightarrow> js_split c (w @ c # rest) = w # js_split c rest"
  by (induction w) (auto simp: Let_def)



subsection \<open>The parser\<close>

lemma set_update_subset: "set (AList.update k v al) \<subseteq> insert (k, v) (set al)"
  by (induction al) auto

definition catalog_ok :: "string \<Rightarrow> (key \<times> word_data) list \<times> key list \<Rightarrow> bool" where
  "catalog_ok currentLang acc \<longleftrightarrow>
     distinct (map fst (fst acc)) \<and> set (snd acc) = set (map fst (fst acc)) \<and>
     list_all (\<lambda>(k, d). images d \<noteq> [] \<and> normalizeText currentLang (original d) = k) (fst acc)"

lemma parse_line_ok:
  assumes ok: "catalog_ok currentLang acc"
  shows "catalog_ok currentLang (parse_line currentLang pkg imgs raw acc)"
proof -
  have step: "catalog_ok currentLang (AList.update k d (fst acc), snd acc @ [k])"
    if "images d \<noteq> []" and "normalizeText currentLang (original d) = k" for k d
  proof -
    have "distinct (map fst (AList.update k d (fst acc)))"
      using ok by (simp add: catalog_ok_def distinct_update)
    moreover have "set (snd acc @ [k]) = set (map fst (AList.update k d (fst acc)))"
      using ok keys_update [of k d "fst acc"] by (auto simp: catalog_ok_def)
    moreover have "list_all (\<lambda>(k, d). images d \<noteq> [] \<and> normalizeText currentLang (original d) = k)
                     (AList.update k d (fst acc))"
      using ok that set_update_subset [of k d "fst acc"] by (fastforce simp: catalog_ok_def list_all_iff)
    ultimately show ?thesis by (simp add: catalog_ok_def)
  qed
  show ?thesis
    using ok unfolding parse_line_def Let_def
    by (auto split: option.splits intro!: step)
qed

lemma parse_fold_ok:
  "catalog_ok currentLang acc \<Longrightarrow> catalog_ok currentLang (fold (parse_line currentLang pkg imgs) ls acc)"
  by (induction ls arbitrary: acc) (simp_all add: parse_line_ok)

lemma parseScaleCSV_ok:
  assumes "parseScaleCSV currentLang m text pkg = Some (wm, seq)"
  shows "catalog_ok currentLang (wm, seq)"
proof -
  obtain imgs where "fold (parse_line currentLang pkg imgs) (drop 1 (js_split (CHR 0x0A) text)) ([], []) = (wm, seq)"
    using assms by (auto simp: parseScaleCSV_def split: option.splits)
  moreover have "catalog_ok currentLang (fold (parse_line currentLang pkg imgs)
                   (drop 1 (js_split (CHR 0x0A) text)) ([], []))"
    by (rule parse_fold_ok) (simp add: catalog_ok_def)
  ultimately show ?thesis by simp
qed

lemma loadData_cleared:
  "loadData wm seq (s\<lparr>wordMap := x, progressMap := y\<rparr>) = loadData wm seq s"
  by (simp add: loadData_def Let_def)

lemma loadPackage_Done:
  assumes "loadPackage currentLang m pkg response s = Done t"
  obtains body wm sq where "response = Some body"
    and "parseScaleCSV currentLang m body pkg = Some (wm, sq)" and "loadData wm sq s = Done t"
proof -
  obtain body where r: "response = Some body"
    using assms by (cases response) (auto simp: loadPackage_def)
  show ?thesis
  proof (cases "parseScaleCSV currentLang m body pkg")
    case None
    then show ?thesis using assms r by (simp add: loadPackage_def loadData_def Let_def)
  next
    case (Some res)
    then obtain wm seq where "parseScaleCSV currentLang m body pkg = Some (wm, seq)" by (cases res) auto
    moreover have "loadData wm seq s = Done t"
      using assms r calculation by (simp add: loadPackage_def loadData_cleared)
    ultimately show ?thesis using r that by blast
  qed
qed

subsection \<open>Properties of the catalog\<close>

text \<open>
  C28. Every key \<^verbatim>\<open>normalizeText\<close> produces is in lower case and trimmed: lowering
  it or trimming it again changes nothing.
\<close>

theorem normalizeText_key_form:
  "js_lower (normalizeText currentLang text) = normalizeText currentLang text \<and>
   js_trim (normalizeText currentLang text) = normalizeText currentLang text"
proof
  define l where "l = js_lower text"
  define x where "x = (if currentLang = ''de'' then strip_article [''der'', ''die'', ''das''] l else l)"
  define y where "y = (if currentLang = ''es'' then strip_article [''el'', ''la'', ''los'', ''las''] x else x)"
  have n: "normalizeText currentLang text = js_trim y"
    by (simp add: normalizeText_def Let_def l_def x_def y_def)
  have "set x \<subseteq> set l" unfolding x_def by (simp only: split: if_split) (simp add: set_strip_article del: strip_article.simps)
  moreover have "set y \<subseteq> set x" unfolding y_def by (simp only: split: if_split) (simp add: set_strip_article del: strip_article.simps)
  ultimately have "set (normalizeText currentLang text) \<subseteq> set (js_lower text)"
    using set_js_trim [of y] by (auto simp: n l_def)
  moreover have "\<forall>c\<in>set (js_lower text). js_lower_char c = c" by (auto simp: js_lower_def)
  ultimately show "js_lower (normalizeText currentLang text) = normalizeText currentLang text"
    by (intro js_lower_fixed) blast
next
  show "js_trim (normalizeText currentLang text) = normalizeText currentLang text"
    by (simp add: normalizeText_def Let_def js_trim_idem)
qed




text \<open>
  Conversely, joining a non-empty list of pieces free of the separator and
  splitting again gives the pieces back.
\<close>

theorem js_join_split_roundtrip:
  assumes "ws \<noteq> []" and "list_all (\<lambda>w. c \<notin> set w) ws"
  shows "js_split c (js_join c ws) = ws"
  using assms
proof (induction ws rule: js_join.induct)
  case (2 c w)
  then show ?case by (simp add: js_split_no_sep)
next
  case (3 c w v vs)
  then show ?case by (simp add: js_split_sep)
qed simp

theorem js_join_split_roundtrip_witness:
  "[''id,word'', ''1,Hund''] \<noteq> [] \<and> list_all (\<lambda>w. CHR 0x0A \<notin> set w) [''id,word'', ''1,Hund''] \<and>
   js_split (CHR 0x0A) (js_join (CHR 0x0A) [''id,word'', ''1,Hund'']) = [''id,word'', ''1,Hund'']"
  using js_join_split_roundtrip [of "[''id,word'', ''1,Hund'']" "CHR 0x0A"] by simp

text \<open>
  C31. A parsed catalog is well formed: its keys are distinct, the sequence holds
  exactly the keys of the word map, every word has at least one image, and every key
  is the normalized form of its word.
\<close>

theorem parse_catalog_wellformed:
  assumes "parseScaleCSV currentLang m body pkg = Some (wm, seq)"
  shows "distinct (map fst wm) \<and> set seq = set (map fst wm) \<and>
         list_all (\<lambda>(k, d). images d \<noteq> [] \<and> normalizeText currentLang (original d) = k) wm"
  using parseScaleCSV_ok [OF assms] by (simp add: catalog_ok_def)

theorem parse_catalog_wellformed_witness:
  "parseScaleCSV ''de'' [(''pk'', [(''1'', [''x.png'']), (''2'', [''y.png''])])]
     ''id,word\<newline>1,Der Hund\<newline>2,die Katze'' ''pk'' =
     Some ([(''hund'', \<lparr>original = ''Der Hund'', wid = ''1'', images = [''pk/1/x.png'']\<rparr>),
            (''katze'', \<lparr>original = ''die Katze'', wid = ''2'', images = [''pk/2/y.png'']\<rparr>)],
           [''hund'', ''katze'']) \<and>
   distinct (map fst [(''hund'', \<lparr>original = ''Der Hund'', wid = ''1'', images = [''pk/1/x.png'']\<rparr>),
                       (''katze'', \<lparr>original = ''die Katze'', wid = ''2'', images = [''pk/2/y.png'']\<rparr>)])"
proof -
  have p: "parseScaleCSV ''de'' [(''pk'', [(''1'', [''x.png'']), (''2'', [''y.png''])])]
     ''id,word\<newline>1,Der Hund\<newline>2,die Katze'' ''pk'' =
     Some ([(''hund'', \<lparr>original = ''Der Hund'', wid = ''1'', images = [''pk/1/x.png'']\<rparr>),
            (''katze'', \<lparr>original = ''die Katze'', wid = ''2'', images = [''pk/2/y.png'']\<rparr>)],
           [''hund'', ''katze''])"
    by (simp add: catalog_eval)
  show ?thesis using p parse_catalog_wellformed [OF p] by blast
qed

text \<open>
  C32. The loader composes with the session: every page state that
  \<^verbatim>\<open>startLoading\<close> produces from a fetched package, on a fresh page or on a reached
  one, is a reachable session state, so C14--C26 apply to it.
\<close>

theorem loaded_package_reachable:
  assumes "s0 = init_session rs \<or> reach s0"
    and "startLoadingPackage currentLang m pkg response s0 = Done s"
  shows "reach s"
proof -
  have "js_then (loadPackage currentLang m pkg response s0) startGame = Done s"
    using assms(2) by (simp only: startLoadingPackage_def)
  then obtain s1 where lp: "loadPackage currentLang m pkg response s0 = Done s1"
    and sg: "startGame s1 = Done s"
    by (cases "loadPackage currentLang m pkg response s0") simp_all
  obtain body wm seq where p: "parseScaleCSV currentLang m body pkg = Some (wm, seq)"
    and ld: "loadData wm seq s0 = Done s1"
    by (rule loadPackage_Done [OF lp])
  have ok: "distinct (map fst wm)" "set seq \<subseteq> set (map fst wm)"
    using parseScaleCSV_ok [OF p] by (simp_all add: catalog_ok_def)
  have sl: "startLoading wm seq s0 = Done s" unfolding startLoading_def ld by (simp only: js_then.simps sg)
  from assms(1) show ?thesis
  proof (elim disjE)
    assume i: "s0 = init_session rs"
    have "startLoading wm seq (init_session rs) = Done s" using sl by (simp only: i)
    then show ?thesis by (rule reach.load [OF ok])
  next
    assume "reach s0"
    then show ?thesis by (rule reach.reload [OF _ ok sl])
  qed
qed

theorem loaded_package_reachable_witness:
  "\<exists>s. startLoadingPackage ''de'' [(''pk'', [(''1'', [''a.png''])])] ''pk''
          (Some ''id,word\<newline>1,Hund'') (init_session nats) = Done s \<and> reach s"
proof -
  obtain s where r: "startLoadingPackage ''de'' [(''pk'', [(''1'', [''a.png''])])] ''pk''
          (Some ''id,word\<newline>1,Hund'') (init_session nats) = Done s"
    by (simp add: startLoadingPackage_def loadPackage_def catalog_eval loadData_def shuffleArray_def
        startGame_def init_session_def applyPool_def updateActivePool.simps window_def js_slice_def
        unmastered_in_def initial_progress_def nextQuestion_def rand_index_def generateOptions_def
        gen_loop_stop)
  then show ?thesis using loaded_package_reachable [OF disjI1 [OF refl] r] by blast
qed


text \<open>
  C34. In a reachable state whose sequence holds a key twice, the progress bar never
  shows every word done: the done count stays below the total.
\<close>

theorem duplicate_keys_block_full_progress:
  assumes "reach s" and "\<not> distinct (sequence s)"
  shows "bar_mastered (bar_of s) < bar_total (bar_of s)"
proof -
  have "masteredCount (progressMap s) \<le> card (set (sequence s))"
    using masteredCount_le_card [OF reach_inv [OF assms(1)]] .
  moreover have "card (set (sequence s)) < length (sequence s)"
    using assms(2) card_length [of "sequence s"] card_distinct [of "sequence s"] by linarith
  ultimately show ?thesis by (simp add: bar_of_def)
qed

theorem duplicate_keys_block_full_progress_witness:
  "\<exists>s. reach s \<and> \<not> distinct (sequence s) \<and> bar_mastered (bar_of s) < bar_total (bar_of s)"
proof -
  let ?wm = "[(''see'', \<lparr>original = ''die See'', wid = ''2'', images = [''pk/2/y.png'']\<rparr>)]"
  obtain s where r: "startLoading ?wm [''see'', ''see''] (init_session nats) = Done s"
    and d: "\<not> distinct (sequence s)"
    by (simp add: startLoading_def loadData_def Let_def shuffleArray_def swap_js_def startGame_def
        init_session_def applyPool_def updateActivePool.simps window_def js_slice_def unmastered_in_def
        initial_progress_def nextQuestion_def rand_index_def generateOptions_def gen_loop_stop)
  have "reach s" by (rule reach.load [OF _ _ r]) simp_all
  then show ?thesis using d duplicate_keys_block_full_progress by blast
qed

text \<open>
  C35. The loader's error paths: a failed fetch throws \<^verbatim>\<open>DataUnavailable\<close> with the
  word map and the progress map cleared; a package missing from the manifest makes the
  parser return early, and the empty key list then throws \<^verbatim>\<open>DataUnavailable\<close> as
  well, with the old sequence left in place.
\<close>

theorem loadPackage_errors:
  assumes "map_of m pkg = None"
  shows "loadPackage currentLang m pkg (Some body) s =
           Thrown DataUnavailable (s\<lparr>wordMap := [], progressMap := [], allKeys := []\<rparr>) \<and>
         loadPackage currentLang m pkg None s = Thrown DataUnavailable (s\<lparr>wordMap := [], progressMap := []\<rparr>)"
  using assms by (simp add: loadPackage_def parseScaleCSV_def loadData_def Let_def)

theorem loadPackage_errors_witness:
  "map_of [] ''mini-german-package-k3'' = (None :: package_images option) \<and>
   loadPackage ''de'' [] ''mini-german-package-k3'' (Some ''id,word'') (init_session nats) =
     Thrown DataUnavailable ((init_session nats)\<lparr>wordMap := [], progressMap := [], allKeys := []\<rparr>)"
  using loadPackage_errors [of "[]" "''mini-german-package-k3''" "''de''" "''id,word''" "init_session nats"]
  by simp

end
