(* ===== verification/Navigation.thy ===== *)
theory Navigation
  imports Catalog Audio
begin

text \<open>
  Presentation and navigation: the screens of the page, the warm-up round shown at
  start-up (\<^verbatim>\<open>startWarmUp\<close>, \<^verbatim>\<open>playWarmUpAudio\<close>, \<^verbatim>\<open>handleWarmUpSelection\<close>),
  the character sprite (\<^verbatim>\<open>updateCharacter\<close> and its idle timer),
  \<^verbatim>\<open>selectLanguage\<close>, \<^verbatim>\<open>startLoading\<close> with its \<^verbatim>\<open>catch\<close>, and the listeners
  \<^verbatim>\<open>bindEvents\<close> installs (language buttons, endless mode, the settings dialog's
  language change, restart and character choice, the click outside the cards). The page state is the record \<open>app\<close>, which holds the
  session of \<open>Session\<close>; an event of the page is a \<open>nav_event\<close> and \<open>nav_step\<close>
  dispatches it, running \<open>Catalog.loadPackage\<close> and \<open>Session.startGame\<close> for a load and
  \<open>Session.session_step\<close> for the game's own events.

  \<^verbatim>\<open>showScreen\<close> hides every screen but one: the model keeps the visible screen.
  A listener whose element is hidden cannot fire, so clicks on the warm-up, language
  and mode screens and on the game's cards act only on their screen. The settings
  dialog is reachable from any screen in the model, which over-approximates the page.
  A reward callback of the warm-up waits a second (\<^verbatim>\<open>setTimeout(..., 1000)\<close>) before
  it shows the language screen; the model's \<open>WarmAdvance\<close> event is that timer, and
  it may fire after any later event.
\<close>

datatype screen = WarmupScreen | LanguageScreen | ModeScreen | LoadingScreen | GameScreen

text \<open>\<^verbatim>\<open>app.warmUp\<close> with the part of the warm-up page the listeners read: the
  order of the cards (\<^verbatim>\<open>displayIndices\<close>), the start button and options area, the
  \<^verbatim>\<open>disabled\<close> class of the cards, whether the clip's handlers are installed, and the
  reward callbacks whose timer has not fired yet.\<close>

record warmup =
  targetIndex :: "nat option"
  displayIndices :: "nat list"
  startVisible :: bool
  optionsVisible :: bool
  cardsEnabled :: bool
  audioStarted :: bool
  pendingPosi :: nat

record app =
  screen :: screen
  currentLang :: "string option"
  character :: string
  pose :: string
  idlePending :: bool
  warm :: warmup
  sess :: session
  loadError :: bool

text \<open>\<^verbatim>\<open>CONFIG.langMap[lang].package\<close>; \<open>None\<close> is an undefined entry.\<close>

definition langPackage :: "string \<Rightarrow> string option" where
  "langPackage lang =
     (if lang = ''de'' then Some ''mini-german-package-k3''
      else if lang = ''ja'' then Some ''mini-japanese-package-k3''
      else if lang = ''es'' then Some ''mini-spanish-package-k3''
      else None)"

definition warmUp_count :: nat where
  "warmUp_count = 3"

text \<open>\<^verbatim>\<open>startWarmUp\<close>: one draw for the target, then \<^verbatim>\<open>shuffleArray([0, 1, 2])\<close>.\<close>

definition startWarmUp :: "app \<Rightarrow> app" where
  "startWarmUp a =
     (let rs = rnd (sess a);
          t = rand_index (shd rs) warmUp_count
      in case shuffleArray [0, 1, 2] (stl rs) of
           (disp, rs') \<Rightarrow>
             a\<lparr>screen := WarmupScreen, pose := ''idle'',
               warm := \<lparr>targetIndex = Some t, displayIndices = disp, startVisible = True,
                        optionsVisible = False, cardsEnabled = False, audioStarted = False,
                        pendingPosi = pendingPosi (warm a)\<rparr>,
               sess := (sess a)\<lparr>rnd := rs'\<rparr>\<rparr>)"

definition app_init :: "rng \<Rightarrow> app" where
  "app_init rs =
     startWarmUp
       \<lparr>screen = WarmupScreen, currentLang = None, character = ''1'', pose = ''idle'',
        idlePending = False,
        warm = \<lparr>targetIndex = None, displayIndices = [], startVisible = False,
                optionsVisible = False, cardsEnabled = False, audioStarted = False,
                pendingPosi = 0\<rparr>,
        sess = init_session rs, loadError = False\<rparr>"

text \<open>\<^verbatim>\<open>updateCharacter(type)\<close>: the sprite, and the idle timer (cleared, and set
  again unless the type is \<^verbatim>\<open>idle\<close>).\<close>

definition updateCharacter :: "string \<Rightarrow> app \<Rightarrow> app" where
  "updateCharacter type a = a\<lparr>pose := type, idlePending := (type \<noteq> ''idle'')\<rparr>"

definition warm_pose :: "nat \<Rightarrow> string" where
  "warm_pose index =
     (if index = 0 then ''left'' else if index = 1 then ''middle''
      else if index = 2 then ''right'' else ''neutral'')"

text \<open>\<^verbatim>\<open>handleWarmUpSelection(selectedIndex, el)\<close> for the card at DOM position
  \<open>index\<close>: a disabled card does nothing; otherwise the sprite turns to the card's
  side, and a correct choice plays the reward sound whose callback will show the
  language screen (a wrong one plays the other sound, without a callback).\<close>

definition handleWarmUpSelection :: "nat \<Rightarrow> nat \<Rightarrow> app \<Rightarrow> app" where
  "handleWarmUpSelection selectedIndex index a =
     (if \<not> cardsEnabled (warm a) then a
      else
        (let a' = updateCharacter (warm_pose index) a
         in if Some selectedIndex = targetIndex (warm a)
            then a'\<lparr>warm := (warm a')\<lparr>pendingPosi := Suc (pendingPosi (warm a'))\<rparr>\<rparr>
            else a'))"

text \<open>\<^verbatim>\<open>selectLanguage\<close>: \<^verbatim>\<open>app.state.currentLang\<close> is also the language the
  audio resolver reads for its local voice, the \<open>audioLang\<close> of the session's audio part.\<close>

definition selectLanguage :: "string \<Rightarrow> app \<Rightarrow> app" where
  "selectLanguage lang a =
     a\<lparr>currentLang := Some lang, screen := ModeScreen,
       sess := (sess a)\<lparr>audio := (audio (sess a))\<lparr>audioLang := lang\<rparr>\<rparr>\<rparr>"

text \<open>
  \<^verbatim>\<open>startLoading\<close>: the loading screen, then \<^verbatim>\<open>loadData\<close> and \<^verbatim>\<open>startGame\<close>;
  an error of either is caught and shown in the status line, and the screen stays.
  \<^verbatim>\<open>loadData\<close> clears the maps and sets the status text before it reads
  \<^verbatim>\<open>langConfig.package\<close>, which throws a \<^verbatim>\<open>TypeError\<close> for a language outside
  \<^verbatim>\<open>CONFIG.langMap\<close>. \<^verbatim>\<open>fetchText\<close> is the environment: the text of a file, or
  \<open>None\<close> for a failed fetch.
\<close>

definition startLoading_app ::
    "manifest \<Rightarrow> (string \<Rightarrow> string option) \<Rightarrow> app \<Rightarrow> app js_result" where
  "startLoading_app packageManifest fetchText a =
     (let a1 = a\<lparr>screen := LoadingScreen, loadError := False\<rparr>;
          cleared = (sess a)\<lparr>wordMap := [], progressMap := []\<rparr>;
          loaded =
            (case currentLang a of
               None \<Rightarrow> Thrown TypeError cleared
             | Some lang \<Rightarrow>
                 (case langPackage lang of
                    None \<Rightarrow> Thrown TypeError cleared
                  | Some pkg \<Rightarrow>
                      loadPackage lang packageManifest pkg (fetchText (pkg @ ''/index.csv'')) (sess a)))
      in case loaded of
           Thrown e s \<Rightarrow> Done (a1\<lparr>sess := s, loadError := True\<rparr>)
         | Hangs \<Rightarrow> Hangs
         | Done s \<Rightarrow>
             (case startGame s of
                Done t \<Rightarrow> Done (a1\<lparr>sess := t, screen := GameScreen\<rparr>)
              | Thrown e t \<Rightarrow> Done (a1\<lparr>sess := t, screen := GameScreen, loadError := True\<rparr>)
              | Hangs \<Rightarrow> Hangs))"

text \<open>The events of the page: the warm-up's start button, the end of its clip
  (\<^verbatim>\<open>onended\<close>, \<^verbatim>\<open>onerror\<close> and the rejected \<^verbatim>\<open>play()\<close> all enable the cards), a
  click on the warm-up card at a DOM position, the timer of a warm-up reward callback,
  the idle timer, the language and endless-mode buttons, the settings dialog's
  confirmed language change, restart and character choice, a click on the game
  screen outside the cards (the replay and delete buttons stop it), and the game's
  own events.\<close>

datatype nav_event =
    WarmStartClick | WarmAudioEnd | WarmCardClick nat | WarmAdvance | IdleTimeout
  | LangButton string | EndlessButton | SettingsLanguage string | SettingsRestart
  | CharacterPick string | BackgroundClick | Game event

definition game_event_enabled :: "event \<Rightarrow> screen \<Rightarrow> bool" where
  "game_event_enabled e scr =
     (case e of Click i \<Rightarrow> scr = GameScreen | DeleteConfirmed \<Rightarrow> scr = GameScreen
      | Replay \<Rightarrow> scr = GameScreen | _ \<Rightarrow> True)"

fun nav_step ::
    "manifest \<Rightarrow> (string \<Rightarrow> string option) \<Rightarrow> nav_event \<Rightarrow> app \<Rightarrow> app js_result" where
  "nav_step pm ft WarmStartClick a =
     (if screen a = WarmupScreen \<and> startVisible (warm a)
      then Done (a\<lparr>warm := (warm a)\<lparr>startVisible := False, optionsVisible := True,
                                     audioStarted := True\<rparr>\<rparr>)
      else Done a)"
| "nav_step pm ft WarmAudioEnd a =
     (if audioStarted (warm a) then Done (a\<lparr>warm := (warm a)\<lparr>cardsEnabled := True\<rparr>\<rparr>)
      else Done a)"
| "nav_step pm ft (WarmCardClick index) a =
     (if screen a = WarmupScreen \<and> optionsVisible (warm a) \<and> index < length (displayIndices (warm a))
      then Done (handleWarmUpSelection (displayIndices (warm a) ! index) index a)
      else Done a)"
| "nav_step pm ft WarmAdvance a =
     (if 0 < pendingPosi (warm a)
      then Done (a\<lparr>warm := (warm a)\<lparr>pendingPosi := pendingPosi (warm a) - 1\<rparr>,
                   screen := LanguageScreen\<rparr>)
      else Done a)"
| "nav_step pm ft IdleTimeout a =
     (if idlePending a then Done (updateCharacter ''idle'' a) else Done a)"
| "nav_step pm ft (LangButton lang) a =
     (if screen a = LanguageScreen then Done (selectLanguage lang a) else Done a)"
| "nav_step pm ft EndlessButton a =
     (if screen a = ModeScreen then startLoading_app pm ft a else Done a)"
| "nav_step pm ft (SettingsLanguage lang) a = startLoading_app pm ft (selectLanguage lang a)"
| "nav_step pm ft SettingsRestart a = startLoading_app pm ft a"
| "nav_step pm ft (CharacterPick charId) a = Done (updateCharacter ''idle'' (a\<lparr>character := charId\<rparr>))"
| "nav_step pm ft BackgroundClick a =
     (if screen a = GameScreen then Done (updateCharacter ''neutral'' a) else Done a)"
| "nav_step pm ft (Game e) a =
     (if game_event_enabled e (screen a) \<and> \<not> reloaded (sess a) then
        (case session_step e (sess a) of
           Done s \<Rightarrow> Done (a\<lparr>sess := s\<rparr>)
         | Thrown err s \<Rightarrow> Thrown err (a\<lparr>sess := s\<rparr>)
         | Hangs \<Rightarrow> Hangs)
      else Done a)"

fun nav_run ::
    "manifest \<Rightarrow> (string \<Rightarrow> string option) \<Rightarrow> nav_event list \<Rightarrow> app \<Rightarrow> app js_result" where
  "nav_run pm ft [] a = Done a"
| "nav_run pm ft (e # es) a = js_then (nav_step pm ft e a) (nav_run pm ft es)"

inductive nav_reach :: "manifest \<Rightarrow> (string \<Rightarrow> string option) \<Rightarrow> app \<Rightarrow> bool"
  for pm ft where
  init: "nav_reach pm ft (app_init rs)"
| step: "nav_reach pm ft a \<Longrightarrow> nav_step pm ft e a = Done b \<Longrightarrow> nav_reach pm ft b"
| thrown: "nav_reach pm ft a \<Longrightarrow> nav_step pm ft e a = Thrown err b \<Longrightarrow> nav_reach pm ft b"

subsection \<open>The warm-up round\<close>

lemma startWarmUp_warm:
  "\<exists>t. targetIndex (warm (startWarmUp a)) = Some t \<and> t \<in> set (displayIndices (warm (startWarmUp a))) \<and>
       length (displayIndices (warm (startWarmUp a))) = 3"
proof -
  let ?sh = "shuffleArray [0 :: nat, 1, 2] (stl (rnd (sess a)))"
  have ms: "mset (fst ?sh) = mset [0 :: nat, 1, 2]" by (rule shuffleArray_mset)
  have t: "rand_index (shd (rnd (sess a))) warmUp_count \<in> set (fst ?sh)"
    using mset_eq_setD [OF ms] by (auto simp: rand_index_def warmUp_count_def)
  have "length (fst ?sh) = 3" using mset_eq_length [OF ms] by simp
  with t show ?thesis
    by (simp add: startWarmUp_def Let_def case_prod_unfold)
qed

lemma startWarmUp_fields [simp]:
  "screen (startWarmUp a) = WarmupScreen" "startVisible (warm (startWarmUp a))"
  "\<not> optionsVisible (warm (startWarmUp a))" "\<not> cardsEnabled (warm (startWarmUp a))"
  "\<not> audioStarted (warm (startWarmUp a))"
  "pendingPosi (warm (startWarmUp a)) = pendingPosi (warm a)"
  by (simp_all add: startWarmUp_def Let_def case_prod_unfold)

lemma handleWarmUpSelection_disabled [simp]:
  "\<not> cardsEnabled (warm a) \<Longrightarrow> handleWarmUpSelection i p a = a"
  by (simp add: handleWarmUpSelection_def)

lemma handleWarmUpSelection_fields [simp]:
  "screen (handleWarmUpSelection i p a) = screen a"
  "warm (handleWarmUpSelection i p a) =
     (if cardsEnabled (warm a) \<and> Some i = targetIndex (warm a)
      then (warm a)\<lparr>pendingPosi := Suc (pendingPosi (warm a))\<rparr> else warm a)"
  "sess (handleWarmUpSelection i p a) = sess a"
  "currentLang (handleWarmUpSelection i p a) = currentLang a"
  by (simp_all add: handleWarmUpSelection_def updateCharacter_def Let_def)

lemma nav_run_append:
  "nav_run pm ft (es @ fs) a = js_then (nav_run pm ft es a) (nav_run pm ft fs)"
proof (induction es arbitrary: a)
  case Nil
  show ?case by simp
next
  case (Cons e es)
  then show ?case by (cases "nav_step pm ft e a") simp_all
qed

subsection \<open>Loading and the page invariant\<close>

lemma startLoading_app_cases:
  "startLoading_app pm ft a = Hangs \<or>
   (\<exists>b. startLoading_app pm ft a = Done b \<and> warm b = warm a \<and> currentLang b = currentLang a \<and>
        (screen b = GameScreen \<or> screen b = LoadingScreen) \<and>
        (screen b = GameScreen \<longrightarrow> (\<exists>l p. currentLang a = Some l \<and> langPackage l = Some p)))"
  by (auto simp: startLoading_app_def Let_def split: option.split js_result.split)

lemma startLoading_app_not_Thrown: "startLoading_app pm ft a \<noteq> Thrown e b"
  using startLoading_app_cases [of pm ft a] by auto

lemma startLoading_app_Done:
  assumes "startLoading_app pm ft a = Done b"
  shows "warm b = warm a" "currentLang b = currentLang a"
    "screen b = GameScreen \<Longrightarrow> \<exists>l p. currentLang a = Some l \<and> langPackage l = Some p"
  using startLoading_app_cases [of pm ft a] assms by auto

lemma nav_step_game:
  "nav_step pm ft (Game e) a = Done b \<or> nav_step pm ft (Game e) a = Thrown err b \<Longrightarrow>
     warm b = warm a \<and> screen b = screen a \<and> currentLang b = currentLang a"
  by (auto split: if_splits js_result.splits)

text \<open>No event but the timer itself removes a pending warm-up callback: neither the
  language buttons, nor a load, nor the settings dialog's language change or restart.\<close>

lemma nav_step_keeps_pending:
  assumes "nav_step pm ft e a = Done b" and "e \<noteq> WarmAdvance"
  shows "pendingPosi (warm a) \<le> pendingPosi (warm b)"
  using assms
proof (cases e)
  case EndlessButton
  then show ?thesis using assms startLoading_app_Done [of pm ft a b] by (auto split: if_splits)
next
  case (SettingsLanguage l)
  then show ?thesis
    using assms startLoading_app_Done [of pm ft "selectLanguage l a" b] by (simp add: selectLanguage_def)
next
  case SettingsRestart
  then show ?thesis using assms startLoading_app_Done [of pm ft a b] by simp
next
  case (Game ev)
  then show ?thesis using assms nav_step_game [of pm ft ev a b] by simp
qed (auto simp: updateCharacter_def selectLanguage_def split: if_splits)

definition nav_inv :: "app \<Rightarrow> bool" where
  "nav_inv a \<longleftrightarrow> (screen a = GameScreen \<longrightarrow> (\<exists>l p. currentLang a = Some l \<and> langPackage l = Some p))"

lemma nav_step_inv:
  assumes "nav_step pm ft e a = Done b \<or> nav_step pm ft e a = Thrown err b" and "nav_inv a"
  shows "nav_inv b"
proof (cases e)
  case EndlessButton
  then show ?thesis
    using assms startLoading_app_Done [of pm ft a b] startLoading_app_not_Thrown [of pm ft a]
    by (auto simp: nav_inv_def split: if_splits)
next
  case (SettingsLanguage l)
  then show ?thesis
    using assms startLoading_app_Done [of pm ft "selectLanguage l a" b]
      startLoading_app_not_Thrown [of pm ft "selectLanguage l a"]
    by (auto simp: nav_inv_def selectLanguage_def)
next
  case SettingsRestart
  then show ?thesis
    using assms startLoading_app_Done [of pm ft a b] startLoading_app_not_Thrown [of pm ft a]
    by (auto simp: nav_inv_def)
next
  case (Game ev)
  then show ?thesis using assms nav_step_game [of pm ft ev a b err] by (auto simp: nav_inv_def)
qed (use assms in \<open>auto simp: nav_inv_def updateCharacter_def selectLanguage_def split: if_splits\<close>)

lemma nav_reach_inv: "nav_reach pm ft a \<Longrightarrow> nav_inv a"
proof (induction rule: nav_reach.induct)
  case (init rs)
  show ?case by (simp add: nav_inv_def app_init_def)
next
  case (step a e b)
  then show ?case using nav_step_inv by blast
next
  case (thrown a e err b)
  then show ?case using nav_step_inv by blast
qed

subsection \<open>Properties of the page\<close>

text \<open>
  C37. The warm-up round can always be passed, whatever the draws: after the start
  button the cards ignore clicks until the clip has ended (or failed), and then one of
  the three cards is the target, whose reward callback shows the language screen.
\<close>

theorem warmup_passable:
  "\<exists>a1. nav_step pm ft WarmStartClick (startWarmUp a0) = Done a1 \<and>
        (\<forall>i. nav_step pm ft (WarmCardClick i) a1 = Done a1) \<and>
        (\<exists>p<3. \<exists>a2. nav_run pm ft [WarmAudioEnd, WarmCardClick p, WarmAdvance] a1 = Done a2 \<and>
                    screen a2 = LanguageScreen)"
proof -
  let ?a = "startWarmUp a0"
  obtain t where t: "targetIndex (warm ?a) = Some t" and tin: "t \<in> set (displayIndices (warm ?a))"
    and len: "length (displayIndices (warm ?a)) = 3"
    using startWarmUp_warm [of a0] by blast
  obtain p where p: "p < 3" and dp: "displayIndices (warm ?a) ! p = t"
    using tin len by (metis in_set_conv_nth)
  let ?a1 = "?a\<lparr>warm := (warm ?a)\<lparr>startVisible := False, optionsVisible := True, audioStarted := True\<rparr>\<rparr>"
  have s1: "nav_step pm ft WarmStartClick ?a = Done ?a1" by simp
  have s2: "nav_step pm ft (WarmCardClick i) ?a1 = Done ?a1" for i by simp
  have s3: "\<exists>a2. nav_run pm ft [WarmAudioEnd, WarmCardClick p, WarmAdvance] ?a1 = Done a2 \<and>
                 screen a2 = LanguageScreen"
    using t dp p len by simp
  show ?thesis using s1 s2 s3 p by blast
qed


end
