(* ===== verification/Session_Properties.thy ===== *)
theory Session_Properties
  imports Session
begin

text \<open>
  The properties of the session (claims C14 to C26), over the definitions and the
  invariant of \<open>Session\<close>: the invariant of every reachable state, what a question asks,
  that \<^verbatim>\<open>nextQuestion\<close> never throws and returns whenever the option loop does, what
  a removal changes and the bounds of the progress bar, and the defects of the handlers
  (an empty window, a removal of an absent word, the two-word catalog, a restart, a
  click on a stale card).
\<close>

subsection \<open>Properties of the session\<close>

text \<open>
  C14. In every state a page reaches, every progress record has a level of at most the
  mastery threshold and is mastered exactly at the threshold: the word-level invariant
  holds for the whole progress map under any sequence of clicks, sound ends, removals
  and restarts.
\<close>

theorem session_progress_ok:
  assumes "reach s" and "map_of (progressMap s) k = Some p"
  shows "level p \<le> masteryThreshold \<and> (mastered p \<longleftrightarrow> level p = masteryThreshold)"
  using reach_inv [OF assms(1)] assms(2) unfolding sess_inv_def progress_ok_def by blast

theorem session_progress_ok_witness:
  "reach one_word_state \<and> level (mark_seen initial_progress) \<le> masteryThreshold \<and>
   (mastered (mark_seen initial_progress) \<longleftrightarrow> level (mark_seen initial_progress) = masteryThreshold)"
  using one_word_reach session_progress_ok [OF one_word_reach, of "''hund''" "mark_seen initial_progress"]
  by simp

text \<open>
  C15. When \<^verbatim>\<open>nextQuestion\<close> finishes with a non-empty pool it has asked a word of the
  pool that was not mastered: the word is the question key and the target of the cards,
  its seen counter went up by one, the cards show distinct words of the catalog among
  them the target, none of them checked, and the attempt flag is reset.
\<close>

theorem nextQuestion_asks_unmastered:
  assumes "reach s" and "nextQuestion s = Done t" and "activePool t \<noteq> []"
  shows "\<exists>k p. currentQuestionKey t = Some k \<and> cardsTarget t = k \<and> k \<in> set (activePool t) \<and>
           map_of (progressMap s) k = Some p \<and> \<not> mastered p \<and>
           map_of (progressMap t) k = Some (mark_seen p) \<and>
           k \<in> set (map card_key (cards t)) \<and> distinct (map card_key (cards t)) \<and>
           set (map card_key (cards t)) \<subseteq> set (allKeys t) \<and>
           filter checked (cards t) = [] \<and> \<not> currentQuestionFailed t"
proof -
  have inv: "sess_inv s" using assms(1) by (rule reach_inv)
  note nq = nextQuestion_Done [OF inv assms(2)]
  then obtain k p opts rs where kin: "k \<in> set (activePool t)" and p: "map_of (progressMap s) k = Some p"
    and nm: "\<not> mastered p" and g: "generateOptions k (allKeys s) (stl (rnd s)) = Some (opts, rs)"
    and t: "currentQuestionKey t = Some k \<and> cardsTarget t = k \<and> \<not> currentQuestionFailed t \<and>
            progressMap t = AList.update k (mark_seen p) (progressMap s) \<and>
            map card_key (cards t) = opts \<and> filter checked (cards t) = []"
    using assms(3) by blast
  have kw: "k \<in> set (allKeys s)"
  proof -
    have "k \<in> set (map fst (progressMap s))" using map_of_SomeD [OF p] by force
    then show ?thesis using inv by (auto simp: sess_inv_def)
  qed
  have "distinct opts \<and> k \<in> set opts \<and> set opts \<subseteq> insert k (set (allKeys s))"
    by (rule generateOptions_keys [OF g])
  then show ?thesis using t kin p nm kw nq by (auto simp: update_conv')
qed

theorem nextQuestion_asks_unmastered_witness:
  "\<exists>t. reach one_word_state \<and> nextQuestion one_word_state = Done t \<and> activePool t \<noteq> [] \<and>
     (\<exists>k p. currentQuestionKey t = Some k \<and> cardsTarget t = k \<and> k \<in> set (activePool t) \<and>
           map_of (progressMap one_word_state) k = Some p \<and> \<not> mastered p \<and>
           map_of (progressMap t) k = Some (mark_seen p) \<and>
           k \<in> set (map card_key (cards t)) \<and> distinct (map card_key (cards t)) \<and>
           set (map card_key (cards t)) \<subseteq> set (allKeys t) \<and>
           filter checked (cards t) = [] \<and> \<not> currentQuestionFailed t)"
proof -
  obtain t where r: "nextQuestion one_word_state = Done t" and pool: "activePool t \<noteq> []"
    by (simp add: nextQuestion_def Let_def applyPool_def updateActivePool.simps window_def
        js_slice_def unmastered_in_def rand_index_def generateOptions_def gen_loop_stop
        shuffleArray_def initial_progress_def mark_seen_def)
  show ?thesis using nextQuestion_asks_unmastered [OF one_word_reach r pool] one_word_reach r pool by blast
qed

text \<open>
  C16. In a reachable state \<^verbatim>\<open>nextQuestion\<close> never throws: the word it picks always
  has a progress record and a catalog entry, and every option it renders has images.
\<close>

theorem nextQuestion_never_throws:
  assumes "reach s"
  shows "nextQuestion s \<noteq> Thrown e t"
  using nextQuestion_not_Thrown [OF reach_inv [OF assms]] .

theorem nextQuestion_never_throws_witness:
  "reach one_word_state \<and> nextQuestion one_word_state \<noteq> Thrown TypeError one_word_state"
  using one_word_reach nextQuestion_never_throws [OF one_word_reach] by blast

text \<open>
  C17. In a reachable state whose catalog does not have exactly two words,
  \<^verbatim>\<open>nextQuestion\<close> returns, for every stream of draws in which each index of the other
  keys keeps recurring: it finishes (it neither throws nor hangs).
\<close>

theorem nextQuestion_returns:
  assumes "reach s" and "length (allKeys s) \<noteq> 2"
    and "fair_draws (length (allKeys s) - 1) (stl (rnd s))"
  shows "\<exists>t. nextQuestion s = Done t"
proof (cases "activePool (applyPool s) = []")
  case True
  then show ?thesis by (simp add: nextQuestion_def)
next
  case False
  have inv: "sess_inv s" using assms(1) by (rule reach_inv)
  define k where "k = activePool (applyPool s) ! rand_index (shd (rnd s)) (length (activePool (applyPool s)))"
  obtain p d where p: "map_of (progressMap s) k = Some p" and d: "map_of (wordMap s) k = Some d"
    using nextQuestion_pick [OF inv False k_def] by blast
  have ak: "allKeys s = map fst (wordMap s)" and dk: "distinct (map fst (wordMap s))"
    using inv by (simp_all add: sess_inv_def)
  have kw: "k \<in> set (map fst (wordMap s))" using map_of_SomeD [OF d] by force
  have "generateOptions k (allKeys s) (stl (rnd s)) \<noteq> None"
    using generateOptions_returns [of "allKeys s" k "stl (rnd s)"] assms(2,3) ak dk kw by simp
  then obtain opts rs where g: "generateOptions k (allKeys s) (stl (rnd s)) = Some (opts, rs)" by auto
  have "set opts \<subseteq> set (map fst (wordMap s))"
    using generateOptions_keys [OF g] kw ak by auto
  then obtain cs rs' where "render_cards (wordMap s) opts rs = Some (cs, rs')"
    using render_cards_Some by blast
  then show ?thesis using g by (simp add: nextQuestion_picked [OF False k_def p d])
qed

theorem nextQuestion_returns_witness:
  "reach one_word_state \<and> fair_draws 0 (stl (rnd one_word_state)) \<and>
   (\<exists>t. nextQuestion one_word_state = Done t)"
proof -
  have f: "fair_draws 0 (stl (rnd one_word_state))" by (simp add: fair_draws_def)
  have "fair_draws (length (allKeys one_word_state) - 1) (stl (rnd one_word_state))" using f by simp
  from nextQuestion_returns [OF one_word_reach _ this] one_word_reach f show ?thesis by simp
qed

text \<open>
  C18. Removing the current word takes it out of the catalog key list, the word map
  and the progress map, and out of the pool; when the removal is followed by a new
  question, none of the new cards shows it.
\<close>

theorem removal_forgets_word:
  assumes "reach s" and "currentQuestionKey s = Some k" and "k \<noteq> []"
    and "removeCurrentWord s = Done t"
  shows "k \<notin> set (allKeys t) \<and> map_of (wordMap t) k = None \<and> map_of (progressMap t) k = None \<and>
         k \<notin> set (activePool t) \<and> (activePool t = [] \<or> filter (\<lambda>c. card_key c = k) (cards t) = [])"
proof -
  let ?s' = "s\<lparr>wordMap := AList.delete k (wordMap s), sequence := remove1 k (sequence s),
               allKeys := remove1 k (allKeys s), progressMap := AList.delete k (progressMap s),
               deletedCount := Suc (deletedCount s)\<rparr>"
  have inv: "sess_inv s" using assms(1) by (rule reach_inv)
  have inv': "sess_inv ?s'" using sess_inv_delete [OF inv] .
  have r: "nextQuestion ?s' = Done t" using assms(4) removeCurrentWord_key [OF assms(2,3)] by simp
  note nq = nextQuestion_Done [OF inv' r]
  have dk: "distinct (allKeys s)" using inv by (simp add: sess_inv_def)
  have ak: "k \<notin> set (allKeys t)" using nq dk by simp
  have wm: "map_of (wordMap t) k = None" using nq by (simp add: map_of_delete_same)
  have pool: "k \<notin> set (activePool t)"
  proof
    assume "k \<in> set (activePool t)"
    then have "k \<in> set (activePool (applyPool ?s'))" using nq by simp
    then have "unmastered_in (map_of (progressMap ?s')) k" by (rule applyPool_pool [THEN conjunct1])
    then show False by (simp add: unmastered_in_def map_of_delete_same)
  qed
  show ?thesis
  proof (cases "t = applyPool ?s' \<and> activePool t = []")
    case True
    then have t': "t = applyPool ?s'" and e: "activePool t = []" by blast+
    from t' have "progressMap t = AList.delete k (progressMap s)" by simp
    then show ?thesis using e using ak wm pool by (simp add: map_of_delete_same)
  next
    case False
    with nq obtain k' p opts rs where p: "map_of (progressMap ?s') k' = Some p"
      and g: "generateOptions k' (allKeys ?s') (stl (rnd ?s')) = Some (opts, rs)"
      and pm: "progressMap t = AList.update k' (mark_seen p) (progressMap ?s')"
      and cs: "map card_key (cards t) = opts" by blast
    have "k' \<noteq> k" using p by (auto simp: map_of_delete_same)
    then have "map_of (progressMap t) k = None" using pm by (simp add: update_conv' map_of_delete_same)
    moreover have "k \<notin> set opts"
      using generateOptions_keys [OF g] \<open>k' \<noteq> k\<close> nq ak by auto
    then have "filter (\<lambda>c. card_key c = k) (cards t) = []"
      using cs by (auto simp: filter_empty_conv)
    ultimately show ?thesis using ak wm pool by simp
  qed
qed

theorem removal_forgets_word_witness:
  "reach one_word_state \<and> removeCurrentWord one_word_state = Done one_word_removed \<and>
   ''hund'' \<notin> set (allKeys one_word_removed) \<and> map_of (wordMap one_word_removed) ''hund'' = None \<and>
   map_of (progressMap one_word_removed) ''hund'' = None \<and> ''hund'' \<notin> set (activePool one_word_removed) \<and>
   (activePool one_word_removed = [] \<or> filter (\<lambda>c. card_key c = ''hund'') (cards one_word_removed) = [])"
  using removal_forgets_word [OF one_word_reach _ _ one_word_remove] one_word_reach one_word_remove
  by simp

text \<open>
  C19. In every reachable state the progress bar shows at most as many words done as
  words in total, and a percentage of at most 100.
\<close>

theorem progress_bar_bounded:
  assumes "reach s"
  shows "bar_mastered (bar_of s) \<le> bar_total (bar_of s) \<and> bar_percentage (bar_of s) \<le> 100"
proof -
  have "masteredCount (progressMap s) \<le> length (sequence s)"
    using masteredCount_le_sequence [OF reach_inv [OF assms]] .
  then show ?thesis by (simp add: bar_of_def percentage_le_100)
qed

theorem progress_bar_bounded_witness:
  "reach one_word_removed \<and> bar_mastered (bar_of one_word_removed) \<le> bar_total (bar_of one_word_removed) \<and>
   bar_percentage (bar_of one_word_removed) \<le> 100"
  using progress_bar_bounded [OF one_word_removed_reach] one_word_removed_reach by simp

text \<open>
  C20. Removing the current word never lowers the displayed percentage (the spec's
  rationale for counting removed words as mastered).
\<close>

theorem removal_never_lowers_progress:
  assumes "reach s" and "removeCurrentWord s = Done t"
  shows "bar_percentage (bar_of s) \<le> bar_percentage (bar_of t)"
proof (cases "\<exists>k. currentQuestionKey s = Some k \<and> k \<noteq> []")
  case False
  then have "t = s" using assms(2) by (auto simp: removeCurrentWord_def js_truthy_str_def split: option.splits)
  then show ?thesis by simp
next
  case True
  then obtain k where key: "currentQuestionKey s = Some k" and ne: "k \<noteq> []" by blast
  let ?s' = "s\<lparr>wordMap := AList.delete k (wordMap s), sequence := remove1 k (sequence s),
               allKeys := remove1 k (allKeys s), progressMap := AList.delete k (progressMap s),
               deletedCount := Suc (deletedCount s)\<rparr>"
  have inv: "sess_inv s" using assms(1) by (rule reach_inv)
  have r: "nextQuestion ?s' = Done t" using assms(2) removeCurrentWord_key [OF key ne] by simp
  have bt: "bar_of t = bar_of ?s'" using nextQuestion_bar [OF sess_inv_delete [OF inv] r] .
  have dp: "distinct (map fst (progressMap s))"
    and sub: "set (map fst (progressMap s)) \<subseteq> set (sequence s)" using inv by (auto simp: sess_inv_def)
  define M where "M = masteredCount (progressMap s)"
  define M' where "M' = masteredCount (AList.delete k (progressMap s))"
  define L where "L = length (sequence s)"
  define D where "D = deletedCount s"
  have ml: "M \<le> L" using masteredCount_le_sequence [OF inv] by (simp add: M_def L_def)
  have "(M + D) * (length (remove1 k (sequence s)) + Suc D) \<le> (M' + Suc D) * (L + D)"
  proof (cases "map_of (progressMap s) k")
    case None
    then have "M' = M" by (simp add: M_def M'_def filter_snd_delete_absent)
    show ?thesis
    proof (cases "k \<in> set (sequence s)")
      case True
      then have len: "length (remove1 k (sequence s)) + Suc D = L + D"
        using length_remove1 [of k "sequence s"] by (simp add: L_def) (metis length_pos_if_in_set Suc_pred)
      show ?thesis unfolding len \<open>M' = M\<close> by simp
    next
      case False
      then have "length (remove1 k (sequence s)) = L" by (simp add: L_def remove1_idem)
      then show ?thesis using \<open>M' = M\<close> ratio_step [of "M + D" "L + D"] ml by simp
    qed
  next
    case (Some p)
    then have "k \<in> set (sequence s)" using sub map_of_SomeD [OF Some] by force
    then have len: "length (remove1 k (sequence s)) + Suc D = L + D"
      using length_remove1 [of k "sequence s"] by (simp add: L_def) (metis length_pos_if_in_set Suc_pred)
    have "M \<le> Suc M'" using masteredCount_delete [OF dp Some] by (simp add: M_def M'_def split: if_splits)
    then have "M + D \<le> M' + Suc D" by simp
    then show ?thesis unfolding len by (rule mult_right_mono) simp
  qed
  then have "percentage (M + D) (L + D) \<le> percentage (M' + Suc D) (length (remove1 k (sequence s)) + Suc D)"
    by (rule percentage_mono) simp
  moreover have "bar_percentage (bar_of t) =
      percentage (M' + Suc D) (length (remove1 k (sequence s)) + Suc D)"
    unfolding bt by (simp add: bar_of_def M'_def D_def)
  moreover have "bar_percentage (bar_of s) = percentage (M + D) (L + D)"
    by (simp add: bar_of_def M_def L_def D_def)
  ultimately show ?thesis by simp
qed

theorem removal_never_lowers_progress_witness:
  "reach one_word_state \<and> removeCurrentWord one_word_state = Done one_word_removed \<and>
   bar_percentage (bar_of one_word_state) \<le> bar_percentage (bar_of one_word_removed)"
  using removal_never_lowers_progress [OF one_word_reach one_word_remove] one_word_reach one_word_remove
  by simp

text \<open>
  C21. Removing a word that is no longer in the session (the stale question key after
  the scheduler found an empty window, see C22) still counts as a removal: the bar
  shows one more word done and one more word in total, although nothing was removed.
\<close>

theorem removal_of_absent_word_counts:
  assumes "reach s" and "currentQuestionKey s = Some k" and "k \<noteq> []"
    and "map_of (progressMap s) k = None" and "k \<notin> set (sequence s)"
    and "removeCurrentWord s = Done t"
  shows "bar_mastered (bar_of t) = Suc (bar_mastered (bar_of s)) \<and>
         bar_total (bar_of t) = Suc (bar_total (bar_of s))"
proof -
  let ?s' = "s\<lparr>wordMap := AList.delete k (wordMap s), sequence := remove1 k (sequence s),
               allKeys := remove1 k (allKeys s), progressMap := AList.delete k (progressMap s),
               deletedCount := Suc (deletedCount s)\<rparr>"
  have inv: "sess_inv s" using assms(1) by (rule reach_inv)
  have r: "nextQuestion ?s' = Done t" using assms(6) removeCurrentWord_key [OF assms(2,3)] by simp
  have "bar_of t = bar_of ?s'" using nextQuestion_bar [OF sess_inv_delete [OF inv] r] .
  moreover have "AList.delete k (progressMap s) = progressMap s"
    using assms(4) by (rule filter_snd_delete_absent)
  moreover have "remove1 k (sequence s) = sequence s" using assms(5) by (rule remove1_idem)
  ultimately show ?thesis by (simp add: bar_of_def)
qed

theorem removal_of_absent_word_counts_witness:
  "\<exists>t. reach one_word_removed \<and> removeCurrentWord one_word_removed = Done t \<and>
     bar_mastered (bar_of t) = Suc (bar_mastered (bar_of one_word_removed)) \<and>
     bar_total (bar_of t) = Suc (bar_total (bar_of one_word_removed))"
proof -
  obtain t where r: "removeCurrentWord one_word_removed = Done t"
    unfolding removeCurrentWord_def session.simps option.case js_truthy_str_def
    by (simp add: nextQuestion_def applyPool_def updateActivePool.simps window_def js_slice_def)
  show ?thesis
    using removal_of_absent_word_counts [OF one_word_removed_reach _ _ _ _ r] one_word_removed_reach r
    by simp
qed

text \<open>
  C22. Once the current window lies past the end of the sequence (after the last
  word of the last window was removed), \<^verbatim>\<open>nextQuestion\<close> neither asks a question nor
  completes: it only empties the pool, the old question key and cards stay, and no
  event other than a restart changes this.
\<close>

theorem empty_window_stalls:
  assumes "length (sequence s) \<le> currentGroupIndex s * groupSize s"
  shows "nextQuestion s = Done (s\<lparr>activePool := []\<rparr>)"
proof -
  have w: "window (sequence s) (currentGroupIndex s) (groupSize s) = []"
    using assms by (simp add: window_def js_slice_def)
  then have "updateActivePool (sequence s) (map_of (progressMap s)) (currentGroupIndex s) (groupSize s) =
             Active (currentGroupIndex s) []"
    by (subst updateActivePool_unfold) simp
  then have "applyPool s = s\<lparr>activePool := []\<rparr>" by (simp add: applyPool_def)
  then show ?thesis by (simp add: nextQuestion_def)
qed

theorem empty_window_stalls_witness:
  "reach one_word_removed \<and> currentQuestionKey one_word_removed = Some ''hund'' \<and>
   nextQuestion one_word_removed = Done (one_word_removed\<lparr>activePool := []\<rparr>)"
  using empty_window_stalls [of one_word_removed] one_word_removed_reach by simp

text \<open>
  C23. Loading a package of exactly two words freezes the page, whatever
  \<^verbatim>\<open>Math.random\<close> yields: the first question's \<^verbatim>\<open>generateOptions\<close> never returns.
\<close>

theorem two_word_catalog_hangs:
  assumes "a \<noteq> b" and "0 < groupSize s"
  shows "startLoading [(a, da), (b, db)] [a, b] s = Hangs"
proof -
  let ?wm = "[(a, da), (b, db)]"
  let ?pm = "[(a, initial_progress), (b, initial_progress)]"
  let ?sh = "shuffleArray [a, b] (rnd s)"
  let ?s1 = "s\<lparr>wordMap := ?wm, sequence := fst ?sh, progressMap := ?pm, allKeys := [a, b],
               rnd := snd ?sh\<rparr>"
  have load: "loadData ?wm [a, b] s = Done ?s1" using assms(1) by (simp add: loadData_def Let_def)
  have ms: "mset (fst ?sh) = mset [a, b]" by (rule shuffleArray_mset)
  have sq: "set (fst ?sh) = {a, b}" using mset_eq_setD [OF ms] by simp
  have len: "length (fst ?sh) = 2" using mset_eq_length [OF ms] by simp
  define W where "W = window (fst ?sh) 0 (groupSize s)"
  have Wne: "W \<noteq> []" using assms(2) len by (simp add: W_def)
  have Wsub: "set W \<subseteq> {a, b}" using js_slice_set [of "fst ?sh"] sq by (simp add: W_def window_def)
  have um: "filter (unmastered_in (map_of ?pm)) W = W"
    using Wsub by (auto simp: filter_id_conv unmastered_in_def initial_progress_def)
  have up: "updateActivePool (fst ?sh) (map_of ?pm) 0 (groupSize s) = Active 0 W"
    unfolding updateActivePool_unfold [of "fst ?sh" "map_of ?pm" 0 "groupSize s"] W_def [symmetric] um
    using Wne by simp
  let ?s3 = "?s1\<lparr>currentGroupIndex := 0, activePool := W\<rparr>"
  have ap1: "applyPool (?s1\<lparr>currentGroupIndex := 0\<rparr>) = ?s3" by (simp add: applyPool_def up [simplified])
  have ap3: "applyPool ?s3 = ?s3" by (simp add: applyPool_def up [simplified])
  define k where "k = activePool (applyPool ?s3) ! rand_index (shd (rnd ?s3)) (length (activePool (applyPool ?s3)))"
  have pool: "activePool (applyPool ?s3) \<noteq> []" using Wne ap3 by simp
  have "k \<in> set W" using Wne by (simp add: k_def ap3 rand_index_less)
  then have kab: "k \<in> {a, b}" using Wsub by blast
  have p: "map_of (progressMap ?s3) k = Some initial_progress" using kab by auto
  obtain d where d: "map_of (wordMap ?s3) k = Some d" using kab assms(1) by auto
  have g: "generateOptions k (allKeys ?s3) (stl (rnd ?s3)) = None"
    using generateOptions_two_keys_None [of "[a, b]" k] kab assms(1) by auto
  have "nextQuestion ?s3 = Hangs" unfolding nextQuestion_picked [OF pool k_def p d] using g by simp
  then show ?thesis using load ap1 by (simp add: startLoading_def startGame_def)
qed

theorem two_word_catalog_hangs_witness:
  "''a'' \<noteq> ''b'' \<and> 0 < groupSize (init_session nats) \<and>
   startLoading [(''a'', \<lparr>original = ''A'', wid = ''1'', images = [''a.png'']\<rparr>),
                 (''b'', \<lparr>original = ''B'', wid = ''2'', images = [''b.png'']\<rparr>)]
                [''a'', ''b''] (init_session nats) = Hangs"
  using two_word_catalog_hangs [of "''a''" "''b''" "init_session nats"] by (simp add: init_session_def)

text \<open>
  C24. A restart or language change keeps the removal count and the pending reward-sound
  callbacks of the old session: right after the load, before any answer, the bar counts
  every word removed in the earlier session as done, and the old callbacks will still
  call \<^verbatim>\<open>nextQuestion\<close> on the new session.
\<close>

theorem restart_keeps_deletions:
  assumes "reach s" and "distinct (map fst wm)" and "set seq \<subseteq> set (map fst wm)"
    and "startLoading wm seq s = Done t"
  shows "bar_mastered (bar_of t) = deletedCount s \<and> bar_total (bar_of t) = length seq + deletedCount s \<and>
         pendingNext t = pendingNext s"
proof -
  obtain s1 where ld: "loadData wm seq s = Done s1" and sg: "startGame s1 = Done t"
    using assms(4) by (cases "loadData wm seq s") (auto simp: startLoading_def)
  let ?pm = "fold (\<lambda>k acc. AList.update k initial_progress acc) seq []"
  let ?sh = "shuffleArray seq (rnd s)"
  have s1: "s1 = s\<lparr>wordMap := wm, sequence := fst ?sh, progressMap := ?pm, allKeys := map fst wm,
                    rnd := snd ?sh\<rparr>"
    using ld by (auto simp: loadData_def Let_def split: if_splits)
  have dc: "distinct (map card_key (cards s))" using reach_inv [OF assms(1)] by (simp add: sess_inv_def)
  have inv1: "sess_inv s1" using loadData_inv [OF assms(2,3) dc ld] .
  let ?s2 = "applyPool (s1\<lparr>currentGroupIndex := 0\<rparr>)"
  have inv2: "sess_inv ?s2" using inv1 by (simp add: sess_inv_def)
  have r: "nextQuestion ?s2 = Done t" using sg by (simp add: startGame_def)
  have "bar_of t = bar_of ?s2" using nextQuestion_bar [OF inv2 r] .
  also have "\<dots> = bar_of s1" by (simp add: bar_of_def)
  finally have bt: "bar_of t = bar_of s1" .
  have m0: "masteredCount ?pm = 0" by (rule masteredCount_fold_initial) (simp add: masteredCount_def)
  have len: "length (fst ?sh) = length seq" using mset_eq_length [OF shuffleArray_mset] .
  have pn: "pendingNext t = pendingNext s"
  proof -
    have "pendingNext t = pendingNext ?s2"
    proof (cases "t = applyPool ?s2")
      case True then show ?thesis by simp
    next
      case False
      then show ?thesis using r
        by (auto simp: nextQuestion_def Let_def split: if_splits option.splits)
    qed
    then show ?thesis using s1 by simp
  qed
  show ?thesis using bt s1 m0 len pn by (simp add: bar_of_def)
qed

theorem restart_keeps_deletions_witness:
  "\<exists>t. reach one_word_removed \<and> distinct (map fst [hund_entry]) \<and> set [''hund''] \<subseteq> set (map fst [hund_entry]) \<and>
     startLoading [hund_entry] [''hund''] one_word_removed = Done t \<and>
     bar_mastered (bar_of t) = 1 \<and> bar_total (bar_of t) = 2 \<and> pendingNext t = 0"
proof -
  obtain t where r: "startLoading [hund_entry] [''hund''] one_word_removed = Done t"
    by (simp add: startLoading_def loadData_def Let_def shuffleArray_def startGame_def
        applyPool_def updateActivePool.simps window_def js_slice_def unmastered_in_def initial_progress_def
        nextQuestion_def rand_index_def generateOptions_def gen_loop_stop)
  have "bar_mastered (bar_of t) = deletedCount one_word_removed \<and>
        bar_total (bar_of t) = length [''hund''] + deletedCount one_word_removed \<and>
        pendingNext t = pendingNext one_word_removed"
    by (rule restart_keeps_deletions [OF one_word_removed_reach _ _ r]) simp_all
  then show ?thesis using one_word_removed_reach r by auto
qed

text \<open>
  C25. A click on an option card is idempotent: once the handler ran (finished or
  threw), a second click on the same card changes nothing.
\<close>

theorem handleSelection_idempotent:
  assumes "handleSelection i s = Done t \<or> handleSelection i s = Thrown e t"
  shows "handleSelection i t = Done t"
proof (cases "length (cards s) \<le> i \<or> checked (cards s ! i)")
  case True
  then have "t = s" using assms by (auto simp: handleSelection_def Let_def split: if_splits)
  then show ?thesis using True by (auto simp: handleSelection_def Let_def)
next
  case False
  then have "cards t = (cards s)[i := (cards s ! i)\<lparr>checked := True\<rparr>]"
    using assms by (auto simp: handleSelection_def Let_def split: if_splits option.splits)
  then show ?thesis using False by (simp add: handleSelection_def)
qed

theorem handleSelection_idempotent_witness:
  "\<exists>t. handleSelection 0 one_word_state = Done t \<and> handleSelection 0 t = Done t"
proof -
  obtain t where r: "handleSelection 0 one_word_state = Done t"
    by (simp add: handleSelection_def Let_def)
  then show ?thesis using handleSelection_idempotent [of 0 one_word_state t] by blast
qed

text \<open>
  C26. A reachable state exists in which clicking the displayed card throws a
  \<^verbatim>\<open>TypeError\<close>: after the only word of the window is removed the scheduler finds an
  empty window (C22), the old cards stay on screen, and their listener reads the
  progress record of the removed target.
\<close>

theorem stale_card_click_throws: "\<exists>s t. reach s \<and> session_step (Click 0) s = Thrown TypeError t"
proof -
  have "session_step (Click 0) one_word_removed =
          Thrown TypeError (one_word_removed\<lparr>cards := [\<lparr>card_key = ''hund'', checked = True,
                                                       card_image = Some ''a.png''\<rparr>]\<rparr>)"
    by (simp add: handleSelection_def Let_def)
  then show ?thesis using one_word_removed_reach by blast
qed

end
