(* ===== verification/Spec2Isabelle.thy ===== *)
theory Spec2Isabelle
  imports Navigation Session_Properties Session_Audio
begin

text \<open>
  \<^bold>\<open>A verification library for the vocabulary-drill engine of \<^verbatim>\<open>src/script.js\<close>.\<close>

  \<^bold>\<open>The program.\<close> One JavaScript object \<^verbatim>\<open>app\<close> holds the whole session state in
  \<^verbatim>\<open>app.state\<close> and reacts to browser events. \<^verbatim>\<open>startLoading\<close> fetches a package's
  CSV, \<^verbatim>\<open>parseScaleCSV\<close> turns it into the word map (keys made by
  \<^verbatim>\<open>normalizeText\<close>) and \<^verbatim>\<open>loadData\<close> builds the shuffled sequence and the progress
  records. The core is a loop: \<^verbatim>\<open>nextQuestion\<close> asks \<^verbatim>\<open>updateActivePool\<close> for the
  words of the current window that are not yet mastered, picks one at random, builds
  three image options with \<^verbatim>\<open>generateOptions\<close> and \<^verbatim>\<open>shuffleArray\<close>, and plays the
  word with \<^verbatim>\<open>playAudio\<close> (cached clip, remote synthesis by
  \<^verbatim>\<open>CONFIG.googleTTS.synthesize\<close>, local speech fallback). A click runs
  \<^verbatim>\<open>handleSelection\<close>, which updates the word's progress record and, after the reward
  sound, calls \<^verbatim>\<open>nextQuestion\<close> again. \<^verbatim>\<open>removeCurrentWord\<close> deletes the current
  word and \<^verbatim>\<open>updateProgressBar\<close> computes the displayed percentage.

  \<^bold>\<open>Theories\<close> (each imports the ones it calls; this root imports them all).
  \<^item> \<open>Prelude\<close>: the types of the model (keys as strings, \<^verbatim>\<open>Math.random\<close> as a
    stream of draws read by \<open>rand_index\<close>, JavaScript \<^verbatim>\<open>Map\<close>s as association lists with
    distinct keys in insertion order), \<^verbatim>\<open>slice\<close>, \<^verbatim>\<open>indexOf\<close>/\<^verbatim>\<open>splice\<close> as
    \<open>remove1\<close>, and the shared lemmas on lists, association lists and folds of updates.
  \<^item> \<open>Mastery\<close> (MasteryTracker, \<^verbatim>\<open>handleSelection\<close>'s correct branch,
    \<^verbatim>\<open>nextQuestion\<close>'s seen counter, \<^verbatim>\<open>updateLevelIndicator\<close>): the progress
    record, \<open>shouldAdvance\<close>, \<open>advance_progress\<close>, and one word's life as the
    \<^theory_text>\<open>inductive\<close> step relation \<open>word_step\<close> with its reachable states
    \<open>word_reach\<close>. Lemmas (C1--C5): level within 0..5 with \<^verbatim>\<open>mastered\<close> exactly at 5
    (rule induction), monotonicity, the learning and testing phase rules, the
    five-round scenario.
  \<^item> \<open>Scheduler\<close> (ActivePoolScheduler, \<^verbatim>\<open>updateActivePool\<close>): a terminating
    \<^theory_text>\<open>function\<close> (measure: keys after the window's start). Lemmas (C6--C9): the
    pool holds only unmastered keys of the settled window, only fully mastered
    non-empty windows are passed, completion only when every remaining key is mastered,
    an empty pool without completion exactly when the window is empty.
  \<^item> \<open>Options\<close> (QuestionSelector: \<^verbatim>\<open>generateOptions\<close>, \<^verbatim>\<open>shuffleArray\<close>): the
    \<^verbatim>\<open>while\<close> loop is a \<^theory_text>\<open>partial_function (option)\<close>, \<open>None\<close> being the loop
    that never ends. Lemmas (C10--C13): correctness when it returns; with exactly two
    words it never returns; with any other catalog size it returns for every stream of
    draws satisfying \<open>fair_draws\<close> (every index is drawn again after any point, which
    independent uniform draws do with probability 1; no fuel bound is needed since
    the proof is by induction on the number of missing options and the next wanted
    draw); the shuffle is a permutation consuming \<open>length - 1\<close> draws.
  \<^item> \<open>Progress\<close> (ProgressAccountant, \<^verbatim>\<open>updateProgressBar\<close>): exact percentage
    with \<^verbatim>\<open>Math.round\<close> as \<open>(200 m + t) div (2 t)\<close> (C27) and the
    spec's ten-word scenario.
  \<^item> \<open>Session\<close>: \<^verbatim>\<open>app.state\<close> as the record \<open>session\<close>, whose field
    \<open>audio\<close> is the state of \<open>Audio\<close> (\<^verbatim>\<open>currentAudioCache\<close> and the
    pending synthesis requests); \<^verbatim>\<open>loadData\<close>, \<^verbatim>\<open>startGame\<close>,
    \<^verbatim>\<open>nextQuestion\<close> (which clears the cache and starts the new word's audio),
    \<^verbatim>\<open>handleSelection\<close> with \<^verbatim>\<open>updateTreatCount\<close>, the reward-sound
    callback \<open>posiCallback\<close> (its \<^verbatim>\<open>Math.random() < 0.3\<close> cat-sound test
    consumes one draw before \<^verbatim>\<open>nextQuestion\<close>), \<^verbatim>\<open>removeCurrentWord\<close> and
    the replay button \<open>replayAudio\<close>, as functions into \<open>js_result\<close> (finishes,
    throws a \<^verbatim>\<open>TypeError\<close> with the state mutated so far, or hangs); the
    browser's event dispatch as \<open>session_step\<close> (clicks, end or failure of the
    reward sound, removal, replay, arrival of a synthesis response) and the reachable
    states as the \<^theory_text>\<open>inductive\<close> \<open>reach\<close> (load, reload, any event after the
    load), with the invariant \<open>sess_inv\<close> preserved by every step.
  \<^item> \<open>Session_Properties\<close>: lemmas (C14--C26) on the session: the invariant by
    rule induction over \<open>reach\<close>, what the next question asks, that
    \<^verbatim>\<open>nextQuestion\<close> never throws and returns whenever the option loop does,
    deletion, progress-bar bounds and monotonicity, and the defects listed below.
  \<^item> \<open>Catalog\<close> (WordCatalog: \<^verbatim>\<open>normalizeText\<close>, \<^verbatim>\<open>parseScaleCSV\<close>, the fetch
    of \<^verbatim>\<open>loadData\<close>, \<^verbatim>\<open>startLoading\<close>): lower-casing, trimming and article stripping
    on 8-bit characters, \<^verbatim>\<open>split\<close>/\<^verbatim>\<open>join\<close>, the CSV fold. Lemmas (C28--C35): key
    normal form, the article regular expression, split/join round trips, a well-formed
    catalog from any text, every loaded package a reachable session, the duplicate-key
    defect, the error paths of the loader.
  \<^item> \<open>Audio\<close> (AudioResolver: \<^verbatim>\<open>getVoiceName\<close>, \<^verbatim>\<open>getLanguageCode\<close>,
    \<^verbatim>\<open>synthesize\<close>, \<^verbatim>\<open>playAudio\<close>, \<^verbatim>\<open>getVoiceLang\<close>): the asynchronous call as
    a \<open>Start\<close> event and the arrival of any in-flight response as a \<open>Resolve\<close> event,
    so every interleaving with a cache reset is a sequence of steps. Lemma (C36): one
    playback per response, with \<^verbatim>\<open>onEnd\<close> called once, or twice for a clip that
    fails to load.
  \<^item> \<open>Navigation\<close> (presentation and navigation: \<^verbatim>\<open>showScreen\<close>, the warm-up
    round, \<^verbatim>\<open>updateCharacter\<close>, \<^verbatim>\<open>selectLanguage\<close>, \<^verbatim>\<open>startLoading\<close> with
    its \<^verbatim>\<open>catch\<close>, the \<^verbatim>\<open>bindEvents\<close> listeners): the page state \<open>app\<close> holds
    the session; \<open>nav_step\<close> dispatches page events, running the catalog loader and
    \<^verbatim>\<open>startGame\<close> for a load and \<open>session_step\<close> for the game's events, and
    \<open>nav_reach\<close> is the reachable page states; supporting lemmas show that a load
    never throws and that the game screen shows only for a language of
    \<^verbatim>\<open>CONFIG.langMap\<close> (\<open>nav_inv\<close>, by rule induction over \<open>nav_reach\<close>).
    Lemmas (C37, C38): the warm-up can always be passed, whatever the draws; no event
    but its timer removes a warm-up reward callback, which can pull a running game back
    to the language screen.
  \<^item> \<open>Session_Audio\<close>: the composition of the session with the audio resolver.
    Lemma (C39) is a simulation: in every reachable session the audio field is a state
    that \<open>audio_step\<close> reaches from the initial audio state by a sequence of its own
    events, each session step contributing the events of the \<^verbatim>\<open>playAudio\<close> calls it
    makes (\<open>ClearCache\<close> and \<open>Start\<close> for a new question, \<open>Start\<close> for replay,
    \<open>Resolve\<close> for a response); the Audio lemmas therefore apply to the session's audio.
    Lemma (C40) runs the ordinary flow of a four-word package under the draws
    \<open>0, 1, 2, ...\<close> (first question Hund, a correct click, the end of the reward
    sound, next question maus) and shows Hund's late response filling maus's cache and
    the replay button playing it.

  \<^bold>\<open>Defects the development proves.\<close> With exactly two words the option loop never
  ends (C11, C23); an empty window stalls the session (C22); removing an absent word
  still counts as a deletion (C21); a restart keeps the deletions (C24); a card of a
  removed question throws on click (C26); two words with the same key collapse and
  block full progress (C34, C35); a clip that fails to load calls \<^verbatim>\<open>onEnd\<close> twice
  (C36); a warm-up reward callback outlives the warm-up and hides a running game
  (C38); a late synthesis response fills the next question's cache with the previous
  word, which replay then plays (C40).

  \<^bold>\<open>Modelling choices.\<close> Clicks may hit any rendered card at any time, the
  reward sound may end or fail at any time and synthesis responses may arrive in any
  order: \<open>reach\<close> over-approximates the browser, so the invariants hold for every
  order of events. Random choices read the draws stream in the order of the code's
  \<^verbatim>\<open>Math.random\<close> calls (including the cat-sound test, whose sound itself is not
  modelled); the proofs hold for every stream, and the concrete runs use the stream
  \<open>0, 1, 2, ...\<close>. The floating-point rounding of the percentage at an exact tie,
  and characters above code point 255 in the catalog, are not represented. No fuel is
  used: the option loop is a \<^theory_text>\<open>partial_function (option)\<close> and its return is
  proved under \<open>fair_draws\<close>.

  \<^bold>\<open>Not modelled.\<close> DOM rendering and styles beyond the option cards and the
  visible screen, the treat animation (\<^verbatim>\<open>playTreatAnimation\<close>), the choice of
  effect sound files, and the replay button's temporary lock (an opacity and
  pointer-events change) are presentation with no state the core reads. A load is
  one step of \<open>nav_step\<close>: events that arrive while \<^verbatim>\<open>fetch\<close> is awaited are not
  interleaved with it.
\<close>

end
